theory Spec2Isabelle
  imports Main
begin

section \<open>JSON values as the handlers see them\<close>

text \<open>
  The handlers of \<^verbatim>\<open>App\<close> read the bodies of HTTP responses through
  \<^verbatim>\<open>response.json()\<close>. A body is any JSON value. A number is read only for its
  truthiness (zero is falsy); \<open>JNum\<close> carries an integer, and numbers with a fraction
  are not represented.
\<close>

datatype json =
    JNull
  | JBool bool
  | JNum int
  | JStr string
  | JArr "json list"
  | JObj "(string \<times> json) list"

text \<open>
  Reading a property \<^verbatim>\<open>data.key\<close>. On \<^verbatim>\<open>null\<close> the read throws a TypeError, whose
  wording belongs to the JavaScript engine: \<open>null_read_message\<close> stands for it. On an
  object the last binding of a repeated key wins, as in \<^verbatim>\<open>JSON.parse\<close>. The handlers
  only read \<^verbatim>\<open>detail\<close>, \<^verbatim>\<open>raw_output\<close>, \<^verbatim>\<open>parsed_data\<close> and \<^verbatim>\<open>markdown\<close>, none of
  which exists on a string, number, boolean or array: there the read gives
  \<^verbatim>\<open>undefined\<close>, modelled as \<open>None\<close>.
\<close>

definition null_read_message :: "string \<Rightarrow> string" where
  "null_read_message key = ''Cannot read properties of null: '' @ key"

fun get_prop :: "json \<Rightarrow> string \<Rightarrow> string + json option" where
  "get_prop JNull key = Inl (null_read_message key)"
| "get_prop (JObj kvs) key = Inr (map_of (rev kvs) key)"
| "get_prop _ key = Inr None"

fun js_truthy :: "json \<Rightarrow> bool" where
  "js_truthy JNull = False"
| "js_truthy (JBool b) = b"
| "js_truthy (JNum n) = (n \<noteq> 0)"
| "js_truthy (JStr s) = (s \<noteq> [])"
| "js_truthy (JArr xs) = True"
| "js_truthy (JObj kvs) = True"

text \<open>
  \<^verbatim>\<open>new Error(detail || fallback).message\<close>, with \<open>None\<close> for \<^verbatim>\<open>undefined\<close>. A string is
  the message as it stands. For any other truthy value the constructor converts its
  argument: the text it gets (for a number the printing of a double, for an array the
  joined elements, for an object what its \<^verbatim>\<open>toString\<close> gives) belongs to the JavaScript
  engine, and so does the message of the TypeError that the conversion throws on an
  object whose own \<^verbatim>\<open>toString\<close> cannot be called. That TypeError is thrown inside the same
  \<^verbatim>\<open>try\<close> block as the error under construction, so either way the \<^verbatim>\<open>catch\<close> block
  receives an error whose message is a function of the value: \<open>message_of\<close> stands for
  that function.
\<close>

definition detail_or :: "(json \<Rightarrow> string) \<Rightarrow> json option \<Rightarrow> string \<Rightarrow> string" where
  "detail_or message_of detail fallback =
     (case detail of
        None \<Rightarrow> fallback
      | Some v \<Rightarrow>
          if js_truthy v then (case v of JStr m \<Rightarrow> m | _ \<Rightarrow> message_of v)
          else fallback)"

section \<open>Data model\<close>

datatype status = Pending | Processing | Success | Error

text \<open>
  An object URL made by \<^verbatim>\<open>URL.createObjectURL\<close>: a fresh, non-empty
  \<^verbatim>\<open>blob:\<close> string, so the truthiness test \<^verbatim>\<open>if (result.fileUrl)\<close> is the test that
  the field is present.
\<close>

datatype object_url = Blob nat

text \<open>
  \<^verbatim>\<open>interface ResultItem\<close>. An optional field is \<open>None\<close> when absent. The two fields
  filled from a response body hold whatever JSON value the body had there.
\<close>

record ResultItem =
  filename :: string
  status :: status
  rawMarkdown :: "json option"
  parsedJson :: "json option"
  error :: "string option"
  processingTime :: "nat option"
  fileUrl :: "object_url option"

record File =
  name :: string
  bytes :: "nat list"

datatype ProcessingMode = Performance | Batch | LowVram

section \<open>The environment of a run\<close>

text \<open>
  A network call either is rejected (\<open>Rejected\<close>, with the message of the error) or
  resolves to a response with its \<^verbatim>\<open>ok\<close> flag and a body; \<^verbatim>\<open>response.json()\<close>
  throws a SyntaxError on a body that is not JSON (\<open>NotJson\<close>, with the message).
\<close>

datatype body = JsonBody json | NotJson string

datatype response = Response bool body | Rejected string

text \<open>
  JavaScript runs one handler at a time, so \<^verbatim>\<open>handleStop\<close> can only run while the
  run is suspended at an \<^verbatim>\<open>await\<close>, that is during a network call. The outcome of
  a call says whether \<^verbatim>\<open>handleStop\<close> ran while the call was pending, and what the
  server answered. Runs are modelled without \<^verbatim>\<open>handleRemoveResult\<close>,
  \<^verbatim>\<open>handleUpdateResult\<close> or a second \<^verbatim>\<open>handleStart\<close> in between.
\<close>

datatype outcome = Outcome (stop_during: bool) (answer: response)

text \<open>
  The outcomes are indexed by the job the call is made for; \<open>elapsed env i\<close> is the
  difference \<^verbatim>\<open>Date.now() - startTime\<close> measured for job \<open>i\<close>. \<open>message_of env v\<close> is the
  message of the error that results from \<^verbatim>\<open>new Error(v)\<close> for a value \<open>v\<close> that is not a
  string.
\<close>

record env =
  process_out :: "nat \<Rightarrow> outcome"
  extract_out :: "nat \<Rightarrow> outcome"
  parse_out :: "nat \<Rightarrow> outcome"
  unload_out :: "nat \<Rightarrow> outcome"
  batch_unload_out :: outcome
  elapsed :: "nat \<Rightarrow> nat"
  message_of :: "json \<Rightarrow> string"

text \<open>
  The network calls a run makes, in order. \<open>Parse i md\<close> is the call to
  \<^verbatim>\<open>/api/llm/parse\<close> for job \<open>i\<close> with \<open>md\<close> in the \<^verbatim>\<open>markdown\<close> field of the request.
  A call is logged when \<^verbatim>\<open>fetch\<close> is invoked, also when its signal is already
  aborted and the request is rejected before it is sent.
\<close>

datatype call = Process nat | Extract nat | Unload | Parse nat "json option"

text \<open>
  The state of \<^verbatim>\<open>App\<close>: the two \<^verbatim>\<open>useState\<close> cells, the \<^verbatim>\<open>AbortController\<close>
  reference (\<open>None\<close> for \<^verbatim>\<open>null\<close>, otherwise the \<^verbatim>\<open>signal.aborted\<close> flag), and three
  ghost fields: the counter from which fresh object URLs are drawn, the log of
  \<^verbatim>\<open>URL.revokeObjectURL\<close> calls and the log of network calls. An exception thrown
  by a state updater is not caught by the handler that queued it: it escapes while
  React renders and unmounts the application. \<open>render_error\<close> records it; from then
  on state updates are dropped.
\<close>

record app_state =
  results :: "ResultItem list"
  isProcessing :: bool
  abortController :: "bool option"
  render_error :: "string option"
  next_url :: nat
  revoked :: "object_url list"
  calls :: "call list"

section \<open>State updates\<close>

text \<open>
  \<^verbatim>\<open>setResults(prev => ...)\<close>. React runs the updaters in the order they were
  queued, each on the result of the one before it, so a run reads as a sequence of
  state updates. An updater either returns the new list or throws (\<open>Inl\<close>, with the
  message of the exception).
\<close>

type_synonym updater = "ResultItem list \<Rightarrow> string + ResultItem list"

definition setResults :: "updater \<Rightarrow> app_state \<Rightarrow> app_state" where
  "setResults upd s =
     (case render_error s of
        Some _ \<Rightarrow> s
      | None \<Rightarrow>
          (case upd (results s) of
             Inl m \<Rightarrow> s\<lparr>render_error := Some m\<rparr>
           | Inr rs \<Rightarrow> s\<lparr>results := rs\<rparr>))"

text \<open>\<^verbatim>\<open>prev.map((r, idx) => f(idx, r))\<close>, where \<open>f\<close> may throw.\<close>

fun map_with_index ::
  "(nat \<Rightarrow> ResultItem \<Rightarrow> string + ResultItem) \<Rightarrow> nat \<Rightarrow> ResultItem list \<Rightarrow> string + ResultItem list" where
  "map_with_index f idx [] = Inr []"
| "map_with_index f idx (r # rs) =
     (case f idx r of
        Inl m \<Rightarrow> Inl m
      | Inr r' \<Rightarrow>
          (case map_with_index f (Suc idx) rs of
             Inl m \<Rightarrow> Inl m
           | Inr rs' \<Rightarrow> Inr (r' # rs')))"

text \<open>\<^verbatim>\<open>prev => prev.map((r, idx) => idx === i ? g(r) : r)\<close>\<close>

definition at_index :: "nat \<Rightarrow> (ResultItem \<Rightarrow> string + ResultItem) \<Rightarrow> updater" where
  "at_index i g = map_with_index (\<lambda>idx r. if idx = i then g r else Inr r) 0"

definition set_status :: "nat \<Rightarrow> status \<Rightarrow> updater" where
  "set_status i st = at_index i (\<lambda>r. Inr (r\<lparr>status := st\<rparr>))"

definition set_error :: "nat \<Rightarrow> string \<Rightarrow> updater" where
  "set_error i m = at_index i (\<lambda>r. Inr (r\<lparr>status := Error, error := Some m\<rparr>))"

section \<open>The handlers that do not suspend\<close>

definition handleStop :: "app_state \<Rightarrow> app_state" where
  "handleStop s =
     (let s1 = (case abortController s of
                  Some _ \<Rightarrow> s\<lparr>abortController := Some True\<rparr>
                | None \<Rightarrow> s);
          s2 = setResults
                 (\<lambda>prev. Inr (map (\<lambda>r. if status r = Processing then r\<lparr>status := Pending\<rparr> else r) prev))
                 s1
      in s2\<lparr>isProcessing := False\<rparr>)"

text \<open>
  \<^verbatim>\<open>handleRemoveResult\<close>: the updater reads \<^verbatim>\<open>prev[index]\<close>, then its
  \<^verbatim>\<open>fileUrl\<close>; on a slot that does not exist the second read throws (the wording
  of the TypeError is the engine's). The index is a position in the rendered list, a
  natural number.
\<close>

definition undefined_read_message :: "string \<Rightarrow> string" where
  "undefined_read_message key = ''Cannot read properties of undefined: '' @ key"

definition handleRemoveResult :: "nat \<Rightarrow> app_state \<Rightarrow> app_state" where
  "handleRemoveResult index s =
     (case render_error s of
        Some _ \<Rightarrow> s
      | None \<Rightarrow>
          (let prev = results s in
           if index < length prev then
             (let result = prev ! index;
                  s1 = (case fileUrl result of
                          Some u \<Rightarrow> s\<lparr>revoked := revoked s @ [u]\<rparr>
                        | None \<Rightarrow> s)
              in s1\<lparr>results := map snd (filter (\<lambda>(i, r). i \<noteq> index) (enumerate 0 prev))\<rparr>)
           else s\<lparr>render_error := Some (undefined_read_message ''fileUrl'')\<rparr>))"


section \<open>Network calls\<close>

datatype thrown = AbortError | OtherError string

definition aborted :: "app_state \<Rightarrow> bool" where
  "aborted s = (abortController s = Some True)"

definition log_call :: "call \<Rightarrow> app_state \<Rightarrow> app_state" where
  "log_call c s = s\<lparr>calls := calls s @ [c]\<rparr>"

definition settled :: "response \<Rightarrow> thrown + bool \<times> body" where
  "settled r = (case r of Rejected m \<Rightarrow> Inl (OtherError m) | Response ok b \<Rightarrow> Inr (ok, b))"

text \<open>
  \<^verbatim>\<open>fetch(url, {..., signal: abortControllerRef.current?.signal})\<close> together with
  the \<^verbatim>\<open>response.json()\<close> that follows it. With a signal that is already aborted
  the call is rejected at once. \<^verbatim>\<open>handleStop\<close> running while the call is pending
  aborts the signal, and the call is rejected with an AbortError whatever the server
  answers. With no controller (\<^verbatim>\<open>signal: undefined\<close>) nothing can abort the call.
\<close>

definition fetch_with_signal ::
  "call \<Rightarrow> outcome \<Rightarrow> app_state \<Rightarrow> (thrown + bool \<times> body) \<times> app_state" where
  "fetch_with_signal c out s =
     (let s1 = log_call c s in
      case abortController s of
        None \<Rightarrow> (settled (answer out), if stop_during out then handleStop s1 else s1)
      | Some True \<Rightarrow> (Inl AbortError, s1)
      | Some False \<Rightarrow>
          if stop_during out then (Inl AbortError, handleStop s1)
          else (settled (answer out), s1))"

text \<open>
  \<^verbatim>\<open>try { await fetch('/api/ocr/unload', { method: 'POST' }) } catch (e) { console.warn(...) }\<close>:
  no signal, and neither the response nor a rejection is looked at.
\<close>

definition fetch_without_signal :: "call \<Rightarrow> outcome \<Rightarrow> app_state \<Rightarrow> app_state" where
  "fetch_without_signal c out s =
     (let s1 = log_call c s in
      if stop_during out then handleStop s1 else s1)"

text \<open>
  The lines every stage shares:
  \<^verbatim>\<open>if (!response.ok) { const errorData = await response.json(); throw new Error(errorData.detail || fallback) }
  const data = await response.json()\<close>
\<close>

definition fetch_json :: "env \<Rightarrow> string \<Rightarrow> thrown + bool \<times> body \<Rightarrow> thrown + json" where
  "fetch_json env fallback fr =
     (case fr of
        Inl t \<Rightarrow> Inl t
      | Inr (ok, b) \<Rightarrow>
          if \<not> ok then
            (case b of
               NotJson m \<Rightarrow> Inl (OtherError m)
             | JsonBody errorData \<Rightarrow>
                 (case get_prop errorData ''detail'' of
                    Inl m \<Rightarrow> Inl (OtherError m)
                  | Inr detail \<Rightarrow> Inl (OtherError (detail_or (message_of env) detail fallback))))
          else
            (case b of
               NotJson m \<Rightarrow> Inl (OtherError m)
             | JsonBody data \<Rightarrow> Inr data))"

text \<open>The extract stage reads \<^verbatim>\<open>data.markdown\<close> inside the \<^verbatim>\<open>try\<close> block.\<close>

definition fetch_markdown :: "env \<Rightarrow> thrown + bool \<times> body \<Rightarrow> thrown + json option" where
  "fetch_markdown env fr =
     (case fetch_json env ''OCR failed'' fr of
        Inl t \<Rightarrow> Inl t
      | Inr data \<Rightarrow>
          (case get_prop data ''markdown'' of
             Inl m \<Rightarrow> Inl (OtherError m)
           | Inr markdown \<Rightarrow> Inr markdown))"

section \<open>Loops\<close>

datatype ctl = Continue | Break

text \<open>
  \<^verbatim>\<open>for (x of xs) { if (abortControllerRef.current?.signal.aborted) break; body }\<close>,
  where the body ends by falling through or \<^verbatim>\<open>continue\<close> (\<open>Continue\<close>) or by
  \<^verbatim>\<open>break\<close> (\<open>Break\<close>). The counting loops run it over \<open>[0..<length files]\<close>.
\<close>

fun for_loop :: "('x \<Rightarrow> 'a \<Rightarrow> ctl \<times> 'a) \<Rightarrow> ('a \<Rightarrow> bool) \<Rightarrow> 'x list \<Rightarrow> 'a \<Rightarrow> 'a" where
  "for_loop body stop [] a = a"
| "for_loop body stop (x # xs) a =
     (if stop a then a
      else (case body x a of
              (Break, a') \<Rightarrow> a'
            | (Continue, a') \<Rightarrow> for_loop body stop xs a'))"

section \<open>Performance policy\<close>

definition process_success :: "env \<Rightarrow> nat \<Rightarrow> json \<Rightarrow> updater" where
  "process_success env i data =
     at_index i (\<lambda>r.
       case get_prop data ''raw_output'' of
         Inl m \<Rightarrow> Inl m
       | Inr raw \<Rightarrow>
           (case get_prop data ''parsed_data'' of
              Inl m \<Rightarrow> Inl m
            | Inr parsed \<Rightarrow>
                Inr (r\<lparr>status := Success, rawMarkdown := raw, parsedJson := parsed,
                       processingTime := Some (elapsed env i)\<rparr>)))"

definition normal_iteration :: "env \<Rightarrow> nat \<Rightarrow> app_state \<Rightarrow> ctl \<times> app_state" where
  "normal_iteration env i s =
     (let s1 = setResults (set_status i Processing) s;
          (fr, s2) = fetch_with_signal (Process i) (process_out env i) s1
      in case fetch_json env ''Processing failed'' fr of
           Inr data \<Rightarrow> (Continue, setResults (process_success env i data) s2)
         | Inl AbortError \<Rightarrow> (Break, setResults (set_status i Pending) s2)
         | Inl (OtherError m) \<Rightarrow> (Continue, setResults (set_error i m) s2))"

definition handleNormalProcessing :: "File list \<Rightarrow> env \<Rightarrow> app_state \<Rightarrow> app_state" where
  "handleNormalProcessing files env s =
     for_loop (normal_iteration env) aborted [0..<length files] s"

section \<open>Batch policy\<close>

definition parse_success :: "env \<Rightarrow> nat \<Rightarrow> json \<Rightarrow> updater" where
  "parse_success env i data =
     at_index i (\<lambda>r.
       case get_prop data ''parsed_data'' of
         Inl m \<Rightarrow> Inl m
       | Inr parsed \<Rightarrow>
           Inr (r\<lparr>status := Success, parsedJson := parsed,
                  processingTime := Some (elapsed env i)\<rparr>))"

type_synonym markdown_results = "(nat \<times> json option) list"

definition batch_extract_iteration ::
  "env \<Rightarrow> nat \<Rightarrow> markdown_results \<times> app_state \<Rightarrow> ctl \<times> markdown_results \<times> app_state" where
  "batch_extract_iteration env i ms =
     (let (markdownResults, s) = ms;
          s1 = setResults (set_status i Processing) s;
          (fr, s2) = fetch_with_signal (Extract i) (extract_out env i) s1
      in case fetch_markdown env fr of
           Inr markdown \<Rightarrow>
             (Continue, markdownResults @ [(i, markdown)],
              setResults (at_index i (\<lambda>r. Inr (r\<lparr>rawMarkdown := markdown, status := Pending\<rparr>))) s2)
         | Inl AbortError \<Rightarrow> (Break, markdownResults, s2)
         | Inl (OtherError m) \<Rightarrow> (Continue, markdownResults, setResults (set_error i m) s2))"

definition parse_call :: "env \<Rightarrow> nat \<Rightarrow> json option \<Rightarrow> app_state \<Rightarrow> ctl \<times> app_state" where
  "parse_call env i markdown s =
     (let (fr, s1) = fetch_with_signal (Parse i markdown) (parse_out env i) s
      in case fetch_json env ''Parse failed'' fr of
           Inr data \<Rightarrow> (Continue, setResults (parse_success env i data) s1)
         | Inl AbortError \<Rightarrow> (Break, s1)
         | Inl (OtherError m) \<Rightarrow> (Continue, setResults (set_error i m) s1))"

definition batch_parse_iteration :: "env \<Rightarrow> nat \<times> json option \<Rightarrow> app_state \<Rightarrow> ctl \<times> app_state" where
  "batch_parse_iteration env im s =
     (let (index, markdown) = im
      in parse_call env index markdown (setResults (set_status index Processing) s))"

definition batch_phase1 :: "File list \<Rightarrow> env \<Rightarrow> app_state \<Rightarrow> markdown_results \<times> app_state" where
  "batch_phase1 files env s =
     for_loop (batch_extract_iteration env) (\<lambda>ms. aborted (snd ms)) [0..<length files] ([], s)"

definition handleBatchProcessing :: "File list \<Rightarrow> env \<Rightarrow> app_state \<Rightarrow> app_state" where
  "handleBatchProcessing files env s =
     (let (markdownResults, s1) = batch_phase1 files env s in
      if aborted s1 then s1
      else
        (let s2 = fetch_without_signal Unload (batch_unload_out env) s1
         in for_loop (batch_parse_iteration env) aborted markdownResults s2))"

section \<open>Low-VRAM policy\<close>

definition lowvram_iteration :: "env \<Rightarrow> nat \<Rightarrow> app_state \<Rightarrow> ctl \<times> app_state" where
  "lowvram_iteration env i s =
     (let s1 = setResults (set_status i Processing) s;
          (fr, s2) = fetch_with_signal (Extract i) (extract_out env i) s1
      in case fetch_markdown env fr of
           Inl AbortError \<Rightarrow> (Break, s2)
         | Inl (OtherError m) \<Rightarrow> (Continue, setResults (set_error i m) s2)
         | Inr markdown \<Rightarrow>
             (let s3 = setResults (at_index i (\<lambda>r. Inr (r\<lparr>rawMarkdown := markdown\<rparr>))) s2;
                  s4 = fetch_without_signal Unload (unload_out env i) s3
              in parse_call env i markdown s4))"

definition handleLowVramProcessing :: "File list \<Rightarrow> env \<Rightarrow> app_state \<Rightarrow> app_state" where
  "handleLowVramProcessing files env s =
     for_loop (lowvram_iteration env) aborted [0..<length files] s"

section \<open>Starting a run\<close>

text \<open>
  \<^verbatim>\<open>files.map(f => ({ filename: f.name, status: 'pending', fileUrl: URL.createObjectURL(f) }))\<close>,
  with \<open>n\<close> the next fresh object URL.
\<close>

fun initialResults :: "File list \<Rightarrow> nat \<Rightarrow> ResultItem list" where
  "initialResults [] n = []"
| "initialResults (f # fs) n =
     \<lparr>filename = name f, status = Pending, rawMarkdown = None, parsedJson = None,
      error = None, processingTime = None, fileUrl = Some (Blob n)\<rparr>
     # initialResults fs (Suc n)"

text \<open>The part of \<^verbatim>\<open>handleStart\<close> before the \<^verbatim>\<open>switch\<close>.\<close>

definition start_setup :: "File list \<Rightarrow> app_state \<Rightarrow> app_state" where
  "start_setup files s =
     (let s1 = s\<lparr>isProcessing := True, abortController := Some False\<rparr>;
          n = next_url s1;
          s2 = s1\<lparr>next_url := n + length files\<rparr>
      in setResults (\<lambda>prev. Inr (initialResults files n)) s2)"

text \<open>
  \<^verbatim>\<open>handleStart\<close>. The model, template, context window and quality only travel in
  the requests, whose answers the environment gives.
\<close>

definition handleStart :: "File list \<Rightarrow> ProcessingMode \<Rightarrow> env \<Rightarrow> app_state \<Rightarrow> app_state" where
  "handleStart files mode env s =
     (let s1 = start_setup files s;
          s2 = (case mode of
                  Performance \<Rightarrow> handleNormalProcessing files env s1
                | Batch \<Rightarrow> handleBatchProcessing files env s1
                | LowVram \<Rightarrow> handleLowVramProcessing files env s1)
      in s2\<lparr>isProcessing := False, abortController := None\<rparr>)"

section \<open>What a run is expected to call\<close>

text \<open>
  The elements of a list up to and including the first one that satisfies \<open>h\<close>:
  the jobs a loop reaches when \<open>h\<close> marks the job during which it is stopped.
\<close>

fun until_first :: "('x \<Rightarrow> bool) \<Rightarrow> 'x list \<Rightarrow> 'x list" where
  "until_first h [] = []"
| "until_first h (x # xs) = (if h x then [x] else x # until_first h xs)"

text \<open>
  The markdown that the extract call of job \<open>i\<close> delivers when it completes
  successfully: it is not aborted, the response is OK, and its body is JSON other than
  \<^verbatim>\<open>null\<close>. \<open>None\<close> when the call fails or is aborted.
\<close>

definition extract_markdown :: "env \<Rightarrow> nat \<Rightarrow> json option option" where
  "extract_markdown env i =
     (if stop_during (extract_out env i) then None
      else (case fetch_markdown env (settled (answer (extract_out env i))) of
              Inl t \<Rightarrow> None
            | Inr markdown \<Rightarrow> Some markdown))"

text \<open>
  The Low-VRAM policy in the words of the specification: for a job whose extract
  completed successfully the calls are extract, unload, parse (with the markdown just
  produced), in this order; for a job whose extract failed or was aborted, the extract
  alone.
\<close>

definition lowvram_job_calls :: "env \<Rightarrow> nat \<Rightarrow> call list" where
  "lowvram_job_calls env i =
     (case extract_markdown env i of
        None \<Rightarrow> [Extract i]
      | Some markdown \<Rightarrow> [Extract i, Unload, Parse i markdown])"

text \<open>\<^verbatim>\<open>handleStop\<close> runs during one of the calls that Low-VRAM makes for job \<open>i\<close>.\<close>

definition lowvram_stopped :: "env \<Rightarrow> nat \<Rightarrow> bool" where
  "lowvram_stopped env i =
     (if stop_during (extract_out env i) then True
      else (case extract_markdown env i of
              None \<Rightarrow> False
            | Some markdown \<Rightarrow> stop_during (unload_out env i) \<or> stop_during (parse_out env i)))"

text \<open>\<^verbatim>\<open>handleStop\<close> runs during Phase 1 of the Batch policy.\<close>

definition phase1_cancelled :: "File list \<Rightarrow> env \<Rightarrow> bool" where
  "phase1_cancelled files env = list_ex (\<lambda>i. stop_during (extract_out env i)) [0..<length files]"

text \<open>The jobs Phase 1 hands to Phase 3, each with its markdown.\<close>

definition extracted :: "env \<Rightarrow> nat \<Rightarrow> (nat \<times> json option) list" where
  "extracted env i =
     (case extract_markdown env i of None \<Rightarrow> [] | Some markdown \<Rightarrow> [(i, markdown)])"

text \<open>
  The Batch policy in the words of the specification. Phase 1 extracts the jobs in
  order, until it is cancelled. Phase 2, skipped when Phase 1 was cancelled, unloads
  once. Phase 3 parses the jobs that produced markdown, in the same order, until it is
  cancelled.
\<close>

definition parse_of :: "nat \<times> json option \<Rightarrow> call" where
  "parse_of im = Parse (fst im) (snd im)"

definition batch_calls :: "File list \<Rightarrow> env \<Rightarrow> call list" where
  "batch_calls files env =
     map Extract (until_first (\<lambda>i. stop_during (extract_out env i)) [0..<length files]) @
     (if phase1_cancelled files env then []
      else Unload #
        (if stop_during (batch_unload_out env) then []
         else map parse_of
                (until_first (\<lambda>im. stop_during (parse_out env (fst im)))
                   (concat (map (extracted env) [0..<length files])))))"

text \<open>A run is live while its controller exists and has not been aborted.\<close>

definition live :: "app_state \<Rightarrow> bool" where
  "live s = (abortController s = Some False)"

text \<open>
  The state of an iteration for job \<open>i\<close> while its first call \<open>c\<close> is pending: the job
  has been marked Processing and the call has been made.
\<close>

definition call_pending :: "call \<Rightarrow> nat \<Rightarrow> app_state \<Rightarrow> app_state" where
  "call_pending c i s = log_call c (setResults (set_status i Processing) s)"

text \<open>
  The state of a Low-VRAM iteration for job \<open>i\<close> once its extract has delivered
  \<open>markdown\<close>, which is stored in the job.
\<close>

definition extract_stored :: "nat \<Rightarrow> json option \<Rightarrow> app_state \<Rightarrow> app_state" where
  "extract_stored i markdown s =
     setResults (at_index i (\<lambda>r. Inr (r\<lparr>rawMarkdown := markdown\<rparr>))) (call_pending (Extract i) i s)"

text \<open>
  The message of the error that a stage throws on a response that is not OK with body
  \<open>b\<close>: the \<^verbatim>\<open>detail\<close> of the body when it is a non-empty string, what \<^verbatim>\<open>new Error\<close>
  makes of it when it is another truthy value, the fallback of the stage when it is
  falsy or absent; the message of the exception when the body cannot be read.
\<close>

definition failure_message :: "env \<Rightarrow> body \<Rightarrow> string \<Rightarrow> string" where
  "failure_message env b fallback =
     (case b of
        NotJson m \<Rightarrow> m
      | JsonBody errorData \<Rightarrow>
          (case get_prop errorData ''detail'' of
             Inl m \<Rightarrow> m
           | Inr detail \<Rightarrow> detail_or (message_of env) detail fallback))"

definition failed_with :: "string \<Rightarrow> ResultItem \<Rightarrow> ResultItem" where
  "failed_with m r = r\<lparr>status := Error, error := Some m\<rparr>"

text \<open>
  The state after an iteration for job \<open>i\<close> that made the calls \<open>cs\<close> and resolved the
  job by \<open>h\<close>: nothing else differs from the state \<open>s\<close> before the iteration.
\<close>

definition resolved :: "call list \<Rightarrow> nat \<Rightarrow> (ResultItem \<Rightarrow> ResultItem) \<Rightarrow> app_state \<Rightarrow> app_state" where
  "resolved cs i h s = s\<lparr>results := (results s)[i := h (results s ! i)], calls := calls s @ cs\<rparr>"

text \<open>\<^verbatim>\<open>handleStop\<close> runs during none of the calls of a run on these files.\<close>

definition never_stopped :: "File list \<Rightarrow> env \<Rightarrow> bool" where
  "never_stopped files env =
     (\<not> stop_during (batch_unload_out env) \<and>
      list_all (\<lambda>i. \<not> stop_during (process_out env i) \<and> \<not> stop_during (extract_out env i) \<and>
                    \<not> stop_during (unload_out env i) \<and> \<not> stop_during (parse_out env i))
        [0..<length files])"

text \<open>What the success branches store in the job, given the fields read from the body.\<close>

definition processed_with :: "json option \<Rightarrow> json option \<Rightarrow> nat \<Rightarrow> ResultItem \<Rightarrow> ResultItem" where
  "processed_with raw parsed t r =
     r\<lparr>status := Success, rawMarkdown := raw, parsedJson := parsed, processingTime := Some t\<rparr>"

definition extracted_with :: "json option \<Rightarrow> ResultItem \<Rightarrow> ResultItem" where
  "extracted_with markdown r = r\<lparr>rawMarkdown := markdown, status := Pending\<rparr>"

definition parsed_with :: "json option \<Rightarrow> nat \<Rightarrow> ResultItem \<Rightarrow> ResultItem" where
  "parsed_with parsed t r = r\<lparr>status := Success, parsedJson := parsed, processingTime := Some t\<rparr>"

text \<open>
  No job is Processing, as long as the application is mounted; and the same with job
  \<open>i\<close> excepted, which holds inside the iteration for job \<open>i\<close>.
\<close>

definition settled_jobs :: "app_state \<Rightarrow> bool" where
  "settled_jobs s =
     (case render_error s of
        None \<Rightarrow> list_all (\<lambda>r. status r \<noteq> Processing) (results s)
      | Some m \<Rightarrow> True)"

definition settled_but :: "nat \<Rightarrow> app_state \<Rightarrow> bool" where
  "settled_but i s =
     (case render_error s of
        None \<Rightarrow> list_all (\<lambda>r. status r \<noteq> Processing) (take i (results s) @ drop (Suc i) (results s))
      | Some m \<Rightarrow> True)"

text \<open>Job \<open>j\<close> exists and is \<open>r\<close>, as long as the application is mounted.\<close>

definition job_is :: "nat \<Rightarrow> ResultItem \<Rightarrow> app_state \<Rightarrow> bool" where
  "job_is j r s =
     (case render_error s of
        None \<Rightarrow> j < length (results s) \<and> results s ! j = r
      | Some m \<Rightarrow> True)"

section \<open>Concrete inputs\<close>

text \<open>
  The state of \<^verbatim>\<open>App\<close> when it mounts, two files, and an environment in which
  every call succeeds; the examples below run the handlers on them.
\<close>

definition init_state :: app_state where
  "init_state =
     \<lparr>results = [], isProcessing = False, abortController = None, render_error = None,
      next_url = 0, revoked = [], calls = []\<rparr>"

definition file_a :: File where
  "file_a = \<lparr>name = ''a.pdf'', bytes = [37, 80, 68, 70]\<rparr>"

definition file_b :: File where
  "file_b = \<lparr>name = ''b.png'', bytes = [137, 80, 78, 71]\<rparr>"



definition ok_json :: "json \<Rightarrow> outcome" where
  "ok_json data = Outcome False (Response True (JsonBody data))"

text \<open>
  Every call is answered OK with the expected fields, and nobody stops the run. The
  one \<^verbatim>\<open>detail\<close> of the examples that is not a string is an array holding one plain
  object, which \<^verbatim>\<open>new Error\<close> turns into \<^verbatim>\<open>[object Object]\<close>.
\<close>

definition good_env :: env where
  "good_env =
     \<lparr>process_out = (\<lambda>i. ok_json (JObj [(''raw_output'', JStr ''# Title''), (''parsed_data'', JObj [])])),
      extract_out = (\<lambda>i. ok_json (JObj [(''markdown'', JStr ''# Title'')])),
      parse_out = (\<lambda>i. ok_json (JObj [(''parsed_data'', JObj [])])),
      unload_out = (\<lambda>i. ok_json (JObj [])),
      batch_unload_out = ok_json (JObj []),
      elapsed = (\<lambda>i. 1200),
      message_of = (\<lambda>v. ''[object Object]'')\<rparr>"

definition first_run :: app_state where
  "first_run = handleStart [file_a] Performance good_env init_state"

text \<open>
  The server rejects the first file at the extract stage (a non-OK response with a
  \<^verbatim>\<open>detail\<close>), and everything else succeeds.
\<close>

definition failed_json :: "string \<Rightarrow> outcome" where
  "failed_json detail = Outcome False (Response False (JsonBody (JObj [(''detail'', JStr detail)])))"

definition first_fails_env :: env where
  "first_fails_env =
     good_env\<lparr>extract_out := (\<lambda>i. if i = 0 then failed_json ''unreadable file''
                                   else extract_out good_env i),
              process_out := (\<lambda>i. if i = 0 then failed_json ''unreadable file''
                                   else process_out good_env i)\<rparr>"

text \<open>\<^verbatim>\<open>handleStop\<close> runs while the extract call of the second file is pending.\<close>

definition stop_at_second_env :: env where
  "stop_at_second_env =
     good_env\<lparr>extract_out := (\<lambda>i. if i = 1 then Outcome True (Rejected ''aborted'')
                                   else extract_out good_env i),
              process_out := (\<lambda>i. if i = 1 then Outcome True (Rejected ''aborted'')
                                   else process_out good_env i)\<rparr>"

text \<open>
  As before, and \<^verbatim>\<open>handleStop\<close> also runs while any parse call is pending.
\<close>

definition stop_in_parse_env :: env where
  "stop_in_parse_env =
     stop_at_second_env\<lparr>parse_out := (\<lambda>i. Outcome True (Rejected ''aborted''))\<rparr>"

text \<open>The application right after the setup of a run on the two files.\<close>

definition two_pending :: app_state where
  "two_pending = start_setup [file_a, file_b] init_state"

text \<open>Every call of every stage is answered with a failure.\<close>

definition all_fail_env :: env where
  "all_fail_env =
     good_env\<lparr>process_out := (\<lambda>i. failed_json ''model crashed''),
              extract_out := (\<lambda>i. failed_json ''model crashed''),
              parse_out := (\<lambda>i. failed_json ''model crashed'')\<rparr>"

text \<open>Every call is answered OK with the empty object \<^verbatim>\<open>{}\<close> as body.\<close>

definition empty_body_env :: env where
  "empty_body_env =
     good_env\<lparr>process_out := (\<lambda>i. ok_json (JObj [])),
              extract_out := (\<lambda>i. ok_json (JObj [])),
              parse_out := (\<lambda>i. ok_json (JObj []))\<rparr>"

text \<open>Every extract delivers markdown and every parse is answered with a failure.\<close>

definition parse_fails_env :: env where
  "parse_fails_env = good_env\<lparr>parse_out := (\<lambda>i. failed_json ''template not found'')\<rparr>"
section \<open>Lists and state updates\<close>

lemma map_with_index_total:
  "(\<And>idx r. f idx r = Inr (h idx r)) \<Longrightarrow>
   map_with_index f k rs = Inr (map (\<lambda>(idx, r). h idx r) (enumerate k rs))"
  by (induction rs arbitrary: k) simp_all

lemma map_enumerate_update:
  "map (\<lambda>(idx, r). if idx = i then h r else r) (enumerate k rs) =
   (if k \<le> i \<and> i < k + length rs then rs[i - k := h (rs ! (i - k))] else rs)"
proof (induction rs arbitrary: k)
  case Nil
  then show ?case by simp
next
  case (Cons r rs)
  show ?case
  proof (cases "i = k")
    case True
    then show ?thesis using Cons [of "Suc k"] by simp
  next
    case False
    show ?thesis
    proof (cases "k < i")
      case True
      then obtain d where d: "i - k = Suc d" "i - Suc k = d"
        by (cases "i - k") auto
      with True False show ?thesis using Cons [of "Suc k"] by auto
    next
      case gt: False
      with False show ?thesis using Cons [of "Suc k"] by auto
    qed
  qed
qed

lemma at_index_total:
  assumes "\<And>r. g r = Inr (h r)"
  shows "at_index i g rs = Inr (if i < length rs then rs[i := h (rs ! i)] else rs)"
proof -
  have "at_index i g rs = Inr (map (\<lambda>(idx, r). if idx = i then h r else r) (enumerate 0 rs))"
    unfolding at_index_def
    by (subst map_with_index_total [where h = "\<lambda>idx r. if idx = i then h r else r"])
       (simp_all add: assms)
  then show ?thesis by (simp add: map_enumerate_update)
qed

lemma filter_enumerate_remove:
  "i < length rs \<Longrightarrow>
   map snd (filter (\<lambda>(j, r). j \<noteq> k + i) (enumerate k rs)) = take i rs @ drop (Suc i) rs"
proof (induction rs arbitrary: k i)
  case Nil
  then show ?case by simp
next
  case (Cons r rs)
  show ?case
  proof (cases i)
    case 0
    have "filter (\<lambda>(j, r). j \<noteq> k) (enumerate (Suc k) rs) = enumerate (Suc k) rs"
      by (rule filter_True) (auto simp: in_set_enumerate_eq)
    with 0 show ?thesis by simp
  next
    case (Suc i')
    with Cons.prems have "i' < length rs" by simp
    from Cons.IH [OF this, of "Suc k"] Suc show ?thesis by simp
  qed
qed

lemma length_initialResults: "length (initialResults files n) = length files"
  by (induction files arbitrary: n) simp_all

lemma initialResults_nth:
  "i < length files \<Longrightarrow>
   initialResults files n ! i =
     \<lparr>filename = name (files ! i), status = Pending, rawMarkdown = None, parsedJson = None,
      error = None, processingTime = None, fileUrl = Some (Blob (n + i))\<rparr>"
proof (induction files arbitrary: n i)
  case Nil
  then show ?case by simp
next
  case (Cons f fs)
  then show ?case by (cases i) simp_all
qed

lemma results_start_setup:
  "render_error s = None \<Longrightarrow> results (start_setup files s) = initialResults files (next_url s)"
  by (simp add: start_setup_def setResults_def Let_def)

section \<open>What the primitives leave alone\<close>

lemma setResults_frame [simp]:
  "calls (setResults u s) = calls s"
  "abortController (setResults u s) = abortController s"
  "revoked (setResults u s) = revoked s"
  "next_url (setResults u s) = next_url s"
  "isProcessing (setResults u s) = isProcessing s"
  by (simp_all add: setResults_def split: option.splits sum.splits)

lemma handleStop_frame [simp]:
  "calls (handleStop s) = calls s"
  "revoked (handleStop s) = revoked s"
  "next_url (handleStop s) = next_url s"
  "abortController (handleStop s) = map_option (\<lambda>b. True) (abortController s)"
  by (simp_all add: handleStop_def Let_def split: option.splits)

lemma log_call_frame [simp]:
  "calls (log_call c s) = calls s @ [c]"
  "abortController (log_call c s) = abortController s"
  "revoked (log_call c s) = revoked s"
  "next_url (log_call c s) = next_url s"
  "results (log_call c s) = results s"
  "render_error (log_call c s) = render_error s"
  by (simp_all add: log_call_def)

lemma live_simps [simp]:
  "live (setResults u s) = live s"
  "live (log_call c s) = live s"
  "aborted (setResults u s) = aborted s"
  "aborted (log_call c s) = aborted s"
  by (simp_all add: live_def aborted_def)

lemma live_not_aborted: "live s \<Longrightarrow> \<not> aborted s"
  by (simp add: live_def aborted_def)

lemma aborted_handleStop: "live s \<Longrightarrow> aborted (handleStop s)"
  by (simp add: live_def aborted_def)

lemma fetch_with_signal_live:
  "live s \<Longrightarrow>
   fetch_with_signal c out s =
     (if stop_during out then (Inl AbortError, handleStop (log_call c s))
      else (settled (answer out), log_call c s))"
  by (simp add: fetch_with_signal_def live_def Let_def)

lemma fetch_with_signal_aborted:
  "aborted s \<Longrightarrow> fetch_with_signal c out s = (Inl AbortError, log_call c s)"
  by (simp add: fetch_with_signal_def aborted_def Let_def)

lemma fetch_json_settled: "fetch_json env fallback (settled r) \<noteq> Inl AbortError"
  by (simp add: fetch_json_def settled_def split: response.splits body.splits sum.splits)

lemma fetch_markdown_settled: "fetch_markdown env (settled r) \<noteq> Inl AbortError"
  using fetch_json_settled [of env "''OCR failed''" r]
  by (auto simp: fetch_markdown_def split: sum.splits)

lemma fetch_json_abort [simp]: "fetch_json env fallback (Inl AbortError) = Inl AbortError"
  by (simp add: fetch_json_def)

lemma fetch_markdown_abort [simp]: "fetch_markdown env (Inl AbortError) = Inl AbortError"
  by (simp add: fetch_markdown_def)

section \<open>Loops\<close>

lemma for_loop_stopped: "stop a \<Longrightarrow> for_loop body stop xs a = a"
  by (cases xs) simp_all

lemma for_loop_invariant:
  assumes "P a"
    and "\<And>x a ctl a'. x \<in> set xs \<Longrightarrow> P a \<Longrightarrow> \<not> stop a \<Longrightarrow> body x a = (ctl, a') \<Longrightarrow> P a'"
  shows "P (for_loop body stop xs a)"
  using assms
proof (induction xs arbitrary: a)
  case Nil
  then show ?case by simp
next
  case (Cons x xs)
  show ?case
  proof (cases "stop a")
    case True
    with Cons.prems(1) show ?thesis by simp
  next
    case False
    obtain ctl a' where b: "body x a = (ctl, a')" by (cases "body x a")
    from Cons.prems(2) [of x a ctl a'] Cons.prems(1) False b have p: "P a'" by simp
    show ?thesis
    proof (cases ctl)
      case Continue
      have "P b'" if "y \<in> set xs" "P b" "\<not> stop b" "body y b = (c, b')" for y b c b'
        using Cons.prems(2) [of y b c b'] that by simp
      then have "P (for_loop body stop xs a')"
        using Cons.IH [of a'] p by blast
      with False b Continue show ?thesis by simp
    next
      case Break
      with False b p show ?thesis by simp
    qed
  qed
qed

lemma for_loop_log:
  assumes step: "\<And>x a ctl a'. x \<in> set xs \<Longrightarrow> alive a \<Longrightarrow> body x a = (ctl, a') \<Longrightarrow>
                   log a' = log a @ block x \<and>
                   (if halts x then ctl = Break \<and> stop a' else ctl = Continue \<and> alive a')"
    and excl: "\<And>a. alive a \<Longrightarrow> \<not> stop a"
    and "alive a"
  shows "log (for_loop body stop xs a) = log a @ concat (map block (until_first halts xs)) \<and>
         (if list_ex halts xs then stop (for_loop body stop xs a)
          else alive (for_loop body stop xs a))"
  using step \<open>alive a\<close>
proof (induction xs arbitrary: a)
  case Nil
  then show ?case by simp
next
  case (Cons x xs)
  obtain ctl a' where b: "body x a = (ctl, a')" by (cases "body x a")
  from Cons.prems(1) [of x a ctl a'] Cons.prems(2) b
  have s: "log a' = log a @ block x"
    and f: "if halts x then ctl = Break \<and> stop a' else ctl = Continue \<and> alive a'"
    by simp_all
  have ns: "\<not> stop a" using excl Cons.prems(2) by simp
  show ?case
  proof (cases "halts x")
    case True
    with f b ns s show ?thesis by simp
  next
    case False
    with f have c: "ctl = Continue" and l: "alive a'" by simp_all
    have step': "log b' = log b @ block y \<and>
                 (if halts y then c = Break \<and> stop b' else c = Continue \<and> alive b')"
      if "y \<in> set xs" "alive b" "body y b = (c, b')" for y b c b'
      using Cons.prems(1) [of y b c b'] that by simp
    have "log (for_loop body stop xs a') = log a' @ concat (map block (until_first halts xs)) \<and>
          (if list_ex halts xs then stop (for_loop body stop xs a')
           else alive (for_loop body stop xs a'))"
      using Cons.IH [of a'] step' l by blast
    with False c b ns s show ?thesis by simp
  qed
qed

section \<open>The calls of one iteration\<close>

lemma extract_markdown_cases:
  "\<not> stop_during (extract_out env i) \<Longrightarrow>
   (case fetch_markdown env (settled (answer (extract_out env i))) of
      Inl AbortError \<Rightarrow> False
    | Inl (OtherError m) \<Rightarrow> extract_markdown env i = None
    | Inr markdown \<Rightarrow> extract_markdown env i = Some markdown)"
  using fetch_markdown_settled [of env "answer (extract_out env i)"]
  by (auto simp: extract_markdown_def split: sum.splits thrown.splits)

lemma normal_iteration_flow:
  assumes "live s" and "normal_iteration env i s = (ctl, s')"
  shows "calls s' = calls s @ [Process i] \<and>
         (if stop_during (process_out env i) then ctl = Break \<and> aborted s'
          else ctl = Continue \<and> live s')"
proof (cases "stop_during (process_out env i)")
  case True
  with assms show ?thesis
    by (auto simp: normal_iteration_def fetch_with_signal_live aborted_handleStop)
next
  case False
  with assms fetch_json_settled [of env "''Processing failed''" "answer (process_out env i)"]
  show ?thesis
    by (auto simp: normal_iteration_def fetch_with_signal_live split: sum.splits thrown.splits)
qed

lemma parse_call_flow:
  assumes "live s" and "parse_call env i markdown s = (ctl, s')"
  shows "calls s' = calls s @ [Parse i markdown] \<and>
         (if stop_during (parse_out env i) then ctl = Break \<and> aborted s'
          else ctl = Continue \<and> live s')"
proof (cases "stop_during (parse_out env i)")
  case True
  with assms show ?thesis
    by (auto simp: parse_call_def fetch_with_signal_live aborted_handleStop)
next
  case False
  with assms fetch_json_settled [of env "''Parse failed''" "answer (parse_out env i)"]
  show ?thesis
    by (auto simp: parse_call_def fetch_with_signal_live split: sum.splits thrown.splits)
qed

lemma parse_call_aborted:
  "aborted s \<Longrightarrow> parse_call env i markdown s = (Break, log_call (Parse i markdown) s)"
  by (simp add: parse_call_def fetch_with_signal_aborted)

lemma batch_parse_iteration_flow:
  assumes "live s" and "batch_parse_iteration env im s = (ctl, s')"
  shows "calls s' = calls s @ [Parse (fst im) (snd im)] \<and>
         (if stop_during (parse_out env (fst im)) then ctl = Break \<and> aborted s'
          else ctl = Continue \<and> live s')"
proof -
  obtain index markdown where im: "im = (index, markdown)" by (cases im)
  from assms(2) have "parse_call env index markdown (setResults (set_status index Processing) s) = (ctl, s')"
    by (simp add: batch_parse_iteration_def im)
  from parse_call_flow [OF _ this] assms(1) show ?thesis by (simp add: im)
qed

lemma batch_extract_iteration_flow:
  assumes "live s" and "batch_extract_iteration env i (mr, s) = (ctl, mr', s')"
  shows "calls s' = calls s @ [Extract i] \<and> mr' = mr @ extracted env i \<and>
         (if stop_during (extract_out env i) then ctl = Break \<and> aborted s'
          else ctl = Continue \<and> live s')"
proof (cases "stop_during (extract_out env i)")
  case True
  with assms show ?thesis
    by (auto simp: batch_extract_iteration_def fetch_with_signal_live aborted_handleStop
          extracted_def extract_markdown_def)
next
  case False
  with assms extract_markdown_cases [OF False]
  show ?thesis
    by (auto simp: batch_extract_iteration_def fetch_with_signal_live extracted_def
          split: sum.splits thrown.splits)
qed

lemma lowvram_iteration_flow:
  assumes "live s" and "lowvram_iteration env i s = (ctl, s')"
  shows "calls s' = calls s @ lowvram_job_calls env i \<and>
         (if lowvram_stopped env i then ctl = Break \<and> aborted s'
          else ctl = Continue \<and> live s')"
proof (cases "stop_during (extract_out env i)")
  case True
  with assms show ?thesis
    by (auto simp: lowvram_iteration_def fetch_with_signal_live aborted_handleStop
          lowvram_job_calls_def lowvram_stopped_def extract_markdown_def)
next
  case False
  show ?thesis
  proof (cases "extract_markdown env i")
    case None
    with False assms extract_markdown_cases [OF False] show ?thesis
      by (auto simp: lowvram_iteration_def fetch_with_signal_live lowvram_job_calls_def
            lowvram_stopped_def split: sum.splits thrown.splits)
  next
    case (Some markdown)
    define s3 where "s3 = setResults (at_index i (\<lambda>r. Inr (r\<lparr>rawMarkdown := markdown\<rparr>)))
                             (log_call (Extract i) (setResults (set_status i Processing) s))"
    define s4 where "s4 = fetch_without_signal Unload (unload_out env i) s3"
    have l3: "live s3" and c3: "calls s3 = calls s @ [Extract i]"
      using assms(1) by (simp_all add: s3_def)
    have c4: "calls s4 = calls s @ [Extract i, Unload]"
      by (simp add: s4_def fetch_without_signal_def c3 Let_def)
    have it: "lowvram_iteration env i s = parse_call env i markdown s4"
      using False Some assms(1) extract_markdown_cases [OF False]
      by (auto simp: lowvram_iteration_def fetch_with_signal_live s3_def s4_def Let_def
            split: sum.splits thrown.splits)
    have pc: "parse_call env i markdown s4 = (ctl, s')"
      using it assms(2) by simp
    show ?thesis
    proof (cases "stop_during (unload_out env i)")
      case True
      then have a4: "aborted s4"
        using l3 by (simp add: s4_def fetch_without_signal_def aborted_handleStop Let_def)
      from parse_call_aborted [OF a4, of env i markdown] pc
      have "ctl = Break" and "s' = log_call (Parse i markdown) s4" by simp_all
      with a4 True False Some c4 show ?thesis
        by (simp add: lowvram_job_calls_def lowvram_stopped_def)
    next
      case nu: False
      then have "live s4" using l3 by (simp add: s4_def fetch_without_signal_def Let_def)
      from parse_call_flow [OF this pc] nu False Some c4
      show ?thesis by (simp add: lowvram_job_calls_def lowvram_stopped_def)
    qed
  qed
qed

section \<open>The calls of a run\<close>

lemma until_first_none: "\<not> list_ex h xs \<Longrightarrow> until_first h xs = xs"
  by (induction xs) simp_all

lemma concat_map_single: "concat (map (\<lambda>x. [f x]) xs) = map f xs"
  by (induction xs) simp_all

lemma handleNormalProcessing_calls:
  assumes "live s"
  shows "calls (handleNormalProcessing files env s) =
           calls s @ map Process (until_first (\<lambda>i. stop_during (process_out env i)) [0..<length files])"
proof -
  have "calls (for_loop (normal_iteration env) aborted [0..<length files] s) =
          calls s @ concat (map (\<lambda>i. [Process i])
             (until_first (\<lambda>i. stop_during (process_out env i)) [0..<length files])) \<and>
        (if list_ex (\<lambda>i. stop_during (process_out env i)) [0..<length files]
         then aborted (for_loop (normal_iteration env) aborted [0..<length files] s)
         else live (for_loop (normal_iteration env) aborted [0..<length files] s))"
  proof (rule for_loop_log [where alive = live])
    fix x and a :: app_state and ctl a'
    assume "live a" and "normal_iteration env x a = (ctl, a')"
    then show "calls a' = calls a @ [Process x] \<and>
               (if stop_during (process_out env x) then ctl = Break \<and> aborted a'
                else ctl = Continue \<and> live a')"
      by (rule normal_iteration_flow)
  next
    fix a :: app_state
    assume "live a"
    then show "\<not> aborted a" by (rule live_not_aborted)
  next
    show "live s" by (rule assms)
  qed
  then show ?thesis
    unfolding handleNormalProcessing_def by (simp add: concat_map_single)
qed

lemma handleLowVramProcessing_calls:
  assumes "live s"
  shows "calls (handleLowVramProcessing files env s) =
           calls s @ concat (map (lowvram_job_calls env)
                        (until_first (lowvram_stopped env) [0..<length files]))"
proof -
  have "calls (for_loop (lowvram_iteration env) aborted [0..<length files] s) =
          calls s @ concat (map (lowvram_job_calls env)
             (until_first (lowvram_stopped env) [0..<length files])) \<and>
        (if list_ex (lowvram_stopped env) [0..<length files]
         then aborted (for_loop (lowvram_iteration env) aborted [0..<length files] s)
         else live (for_loop (lowvram_iteration env) aborted [0..<length files] s))"
  proof (rule for_loop_log [where alive = live])
    fix x and a :: app_state and ctl a'
    assume "live a" and "lowvram_iteration env x a = (ctl, a')"
    then show "calls a' = calls a @ lowvram_job_calls env x \<and>
               (if lowvram_stopped env x then ctl = Break \<and> aborted a'
                else ctl = Continue \<and> live a')"
      by (rule lowvram_iteration_flow)
  next
    fix a :: app_state
    assume "live a"
    then show "\<not> aborted a" by (rule live_not_aborted)
  next
    show "live s" by (rule assms)
  qed
  then show ?thesis
    unfolding handleLowVramProcessing_def by simp
qed

lemma batch_extract_iteration_step:
  assumes "live (snd a)" and "batch_extract_iteration env x a = (ctl, a')"
  shows "calls (snd a') = calls (snd a) @ [Extract x] \<and>
         fst a' = fst a @ extracted env x \<and>
         (if stop_during (extract_out env x) then ctl = Break \<and> aborted (snd a')
          else ctl = Continue \<and> live (snd a'))"
proof -
  from assms(2) have "batch_extract_iteration env x (fst a, snd a) = (ctl, fst a', snd a')"
    by simp
  from batch_extract_iteration_flow [OF assms(1) this] show ?thesis by simp
qed

lemma batch_phase1_trace:
  assumes "live s"
  shows "(\<lambda>ms. (fst ms, calls (snd ms))) (batch_phase1 files env s) =
           (concat (map (extracted env)
              (until_first (\<lambda>i. stop_during (extract_out env i)) [0..<length files])),
            calls s @ map Extract
              (until_first (\<lambda>i. stop_during (extract_out env i)) [0..<length files])) \<and>
         (if phase1_cancelled files env then aborted (snd (batch_phase1 files env s))
          else live (snd (batch_phase1 files env s)))"
proof -
  let ?halts = "\<lambda>i. stop_during (extract_out env i)"
  let ?loop = "for_loop (batch_extract_iteration env) (\<lambda>ms. aborted (snd ms)) [0..<length files]
                 (([], s) :: markdown_results \<times> app_state)"
  have c: "calls (snd ?loop) =
          calls (snd (([], s) :: markdown_results \<times> app_state)) @
            concat (map (\<lambda>i. [Extract i]) (until_first ?halts [0..<length files])) \<and>
        (if list_ex ?halts [0..<length files] then aborted (snd ?loop) else live (snd ?loop))"
  proof (rule for_loop_log [where alive = "\<lambda>ms. live (snd ms)" and log = "\<lambda>ms. calls (snd ms)"
        and stop = "\<lambda>ms. aborted (snd ms)"])
    fix x and a :: "markdown_results \<times> app_state" and ctl a'
    assume "live (snd a)" and "batch_extract_iteration env x a = (ctl, a')"
    from batch_extract_iteration_step [OF this]
    show "calls (snd a') = calls (snd a) @ [Extract x] \<and>
          (if stop_during (extract_out env x) then ctl = Break \<and> aborted (snd a')
           else ctl = Continue \<and> live (snd a'))"
      by simp
  next
    fix a :: "markdown_results \<times> app_state"
    assume "live (snd a)"
    then show "\<not> aborted (snd a)" by (rule live_not_aborted)
  next
    show "live (snd (([], s) :: markdown_results \<times> app_state))" using assms by simp
  qed
  have m: "fst ?loop =
          fst (([], s) :: markdown_results \<times> app_state) @
            concat (map (extracted env) (until_first ?halts [0..<length files])) \<and>
        (if list_ex ?halts [0..<length files] then aborted (snd ?loop) else live (snd ?loop))"
  proof (rule for_loop_log [where alive = "\<lambda>ms. live (snd ms)" and log = fst
        and stop = "\<lambda>ms. aborted (snd ms)"])
    fix x and a :: "markdown_results \<times> app_state" and ctl a'
    assume "live (snd a)" and "batch_extract_iteration env x a = (ctl, a')"
    from batch_extract_iteration_step [OF this]
    show "fst a' = fst a @ extracted env x \<and>
          (if stop_during (extract_out env x) then ctl = Break \<and> aborted (snd a')
           else ctl = Continue \<and> live (snd a'))"
      by simp
  next
    fix a :: "markdown_results \<times> app_state"
    assume "live (snd a)"
    then show "\<not> aborted (snd a)" by (rule live_not_aborted)
  next
    show "live (snd (([], s) :: markdown_results \<times> app_state))" using assms by simp
  qed
  from c have c1: "calls (snd ?loop) = calls s @ map Extract (until_first ?halts [0..<length files])"
    by (simp add: concat_map_single)
  from c have c2: "if list_ex ?halts [0..<length files] then aborted (snd ?loop) else live (snd ?loop)"
    by (rule conjunct2)
  from m have m1: "fst ?loop = concat (map (extracted env) (until_first ?halts [0..<length files]))"
    by simp
  from c1 c2 m1 show ?thesis
    unfolding batch_phase1_def phase1_cancelled_def by simp
qed

lemma batch_phase3_calls:
  assumes "live s"
  shows "calls (for_loop (batch_parse_iteration env) aborted mr s) =
           calls s @ map parse_of (until_first (\<lambda>im. stop_during (parse_out env (fst im))) mr)"
proof -
  let ?halts = "\<lambda>im :: nat \<times> json option. stop_during (parse_out env (fst im))"
  have "calls (for_loop (batch_parse_iteration env) aborted mr s) =
          calls s @ concat (map (\<lambda>im. [parse_of im]) (until_first ?halts mr)) \<and>
        (if list_ex ?halts mr
         then aborted (for_loop (batch_parse_iteration env) aborted mr s)
         else live (for_loop (batch_parse_iteration env) aborted mr s))"
  proof (rule for_loop_log [where alive = live])
    fix x and a :: app_state and ctl a'
    assume "live a" and "batch_parse_iteration env x a = (ctl, a')"
    from batch_parse_iteration_flow [OF this]
    show "calls a' = calls a @ [parse_of x] \<and>
          (if stop_during (parse_out env (fst x)) then ctl = Break \<and> aborted a'
           else ctl = Continue \<and> live a')"
      by (simp add: parse_of_def)
  next
    fix a :: app_state
    assume "live a"
    then show "\<not> aborted a" by (rule live_not_aborted)
  next
    show "live s" by (rule assms)
  qed
  then show ?thesis
    by (simp add: concat_map_single)
qed

lemma handleBatchProcessing_calls:
  assumes "live s"
  shows "calls (handleBatchProcessing files env s) = calls s @ batch_calls files env"
proof -
  obtain mr s1 where p1: "batch_phase1 files env s = (mr, s1)"
    by (cases "batch_phase1 files env s")
  from batch_phase1_trace [OF assms, of files env]
  have c1: "calls s1 = calls s @ map Extract
              (until_first (\<lambda>i. stop_during (extract_out env i)) [0..<length files])"
    and m1: "mr = concat (map (extracted env)
              (until_first (\<lambda>i. stop_during (extract_out env i)) [0..<length files]))"
    and f1: "if phase1_cancelled files env then aborted s1 else live s1"
    unfolding p1 by (simp_all split: if_splits)
  show ?thesis
  proof (cases "phase1_cancelled files env")
    case True
    with f1 p1 c1 show ?thesis
      by (simp add: handleBatchProcessing_def batch_calls_def)
  next
    case False
    with f1 have l1: "live s1" by simp
    then have na: "\<not> aborted s1" by (rule live_not_aborted)
    from False have all: "until_first (\<lambda>i. stop_during (extract_out env i)) [0..<length files] = [0..<length files]"
      by (simp add: phase1_cancelled_def until_first_none)
    define s2 where "s2 = fetch_without_signal Unload (batch_unload_out env) s1"
    have c2: "calls s2 = calls s1 @ [Unload]"
      by (simp add: s2_def fetch_without_signal_def Let_def)
    have run: "handleBatchProcessing files env s = for_loop (batch_parse_iteration env) aborted mr s2"
      using p1 na by (simp add: handleBatchProcessing_def s2_def)
    show ?thesis
    proof (cases "stop_during (batch_unload_out env)")
      case True
      then have "aborted s2"
        using l1 by (simp add: s2_def fetch_without_signal_def Let_def aborted_handleStop)
      then have "for_loop (batch_parse_iteration env) aborted mr s2 = s2"
        by (rule for_loop_stopped)
      with run c2 c1 True False show ?thesis by (simp add: batch_calls_def)
    next
      case nu: False
      then have "live s2" using l1 by (simp add: s2_def fetch_without_signal_def Let_def)
      from batch_phase3_calls [OF this, of env mr] run c2 c1 nu False m1 all
      show ?thesis by (simp add: batch_calls_def)
    qed
  qed
qed

lemma start_setup_frame [simp]:
  "calls (start_setup files s) = calls s"
  "revoked (start_setup files s) = revoked s"
  "live (start_setup files s)"
  by (simp_all add: start_setup_def Let_def live_def)

lemma handleStart_calls:
  "calls (handleStart files mode env s) =
     calls s @ (case mode of
        Performance \<Rightarrow> map Process (until_first (\<lambda>i. stop_during (process_out env i)) [0..<length files])
      | Batch \<Rightarrow> batch_calls files env
      | LowVram \<Rightarrow> concat (map (lowvram_job_calls env)
                      (until_first (lowvram_stopped env) [0..<length files])))"
proof -
  have l: "live (start_setup files s)" by simp
  show ?thesis
  proof (cases mode)
    case Performance
    with handleNormalProcessing_calls [OF l, of files env] show ?thesis
      by (simp add: handleStart_def)
  next
    case Batch
    with handleBatchProcessing_calls [OF l, of files env] show ?thesis
      by (simp add: handleStart_def)
  next
    case LowVram
    with handleLowVramProcessing_calls [OF l, of files env] show ?thesis
      by (simp add: handleStart_def)
  qed
qed

section \<open>Counting unload calls\<close>

lemma count_unload_extracts: "count_list (map Extract xs) Unload = 0"
  by (induction xs) simp_all

lemma count_unload_parses: "count_list (map parse_of xs) Unload = 0"
  by (induction xs) (simp_all add: parse_of_def)

lemma count_unload_batch_calls:
  "count_list (batch_calls files env) Unload = (if phase1_cancelled files env then 0 else 1)"
  by (simp add: batch_calls_def count_unload_extracts count_unload_parses)

lemma count_unload_lowvram:
  "count_list (concat (map (lowvram_job_calls env) xs)) Unload =
     length (filter (\<lambda>i. extract_markdown env i \<noteq> None) xs)"
  by (induction xs) (auto simp: lowvram_job_calls_def split: option.splits)

section \<open>The job list after an update\<close>

lemma at_index_update:
  assumes "\<And>r. g r = Inr (h r)"
  shows "at_index i g rs = Inr (rs[i := h (rs ! i)])"
  by (simp add: at_index_total [of g h, OF assms] list_update_beyond)

lemma setResults_at_index:
  assumes "\<And>r. g r = Inr (h r)" and "render_error s = None"
  shows "setResults (at_index i g) s = s\<lparr>results := (results s)[i := h (results s ! i)]\<rparr>"
  using assms(2) by (simp add: setResults_def at_index_update [of g h, OF assms(1)])

lemma setResults_unmounted: "render_error s = Some m \<Longrightarrow> setResults u s = s"
  by (simp add: setResults_def)

lemma render_error_at_index:
  assumes "\<And>r. g r = Inr (h r)"
  shows "render_error (setResults (at_index i g) s) = render_error s"
  by (cases "render_error s")
     (simp_all add: setResults_def at_index_update [of g h, OF assms])

lemma setResults_set_status:
  "render_error s = None \<Longrightarrow>
   setResults (set_status i st) s = s\<lparr>results := (results s)[i := (results s ! i)\<lparr>status := st\<rparr>]\<rparr>"
  unfolding set_status_def by (rule setResults_at_index) simp_all

lemma setResults_set_error:
  "render_error s = None \<Longrightarrow>
   setResults (set_error i m) s =
     s\<lparr>results := (results s)[i := (results s ! i)\<lparr>status := Error, error := Some m\<rparr>]\<rparr>"
  unfolding set_error_def by (rule setResults_at_index) simp_all

lemma render_error_set_status [simp]:
  "render_error (setResults (set_status i st) s) = render_error s"
  unfolding set_status_def by (rule render_error_at_index) simp

lemma render_error_set_error [simp]:
  "render_error (setResults (set_error i m) s) = render_error s"
  unfolding set_error_def by (rule render_error_at_index) simp

lemma render_error_handleStop [simp]: "render_error (handleStop s) = render_error s"
  by (cases "render_error s")
     (simp_all add: handleStop_def setResults_def Let_def split: option.splits)

lemma results_handleStop:
  "render_error s = None \<Longrightarrow>
   results (handleStop s) =
     map (\<lambda>r. if status r = Processing then r\<lparr>status := Pending\<rparr> else r) (results s)"
  by (simp add: handleStop_def setResults_def Let_def split: option.splits)

lemma results_handleStop_unmounted:
  "render_error s = Some m \<Longrightarrow> results (handleStop s) = results s"
  by (simp add: handleStop_def setResults_def Let_def split: option.splits)

lemma handleStop_no_processing:
  "render_error s = None \<Longrightarrow> \<forall>r\<in>set (results (handleStop s)). status r \<noteq> Processing"
  by (auto simp: results_handleStop)

lemma render_error_call_pending [simp]:
  "render_error (call_pending c i s) = render_error s"
  by (simp add: call_pending_def)

lemma results_call_pending:
  "render_error s = None \<Longrightarrow>
   results (call_pending c i s) = (results s)[i := (results s ! i)\<lparr>status := Processing\<rparr>]"
  by (simp add: call_pending_def setResults_set_status)

lemma live_call_pending [simp]: "live (call_pending c i s) = live s"
  by (simp add: call_pending_def)

lemma render_error_extract_stored [simp]:
  "render_error (extract_stored i markdown s) = render_error s"
  unfolding extract_stored_def
  by (simp add: render_error_at_index [where h = "\<lambda>r. r\<lparr>rawMarkdown := markdown\<rparr>"])

lemma results_extract_stored:
  "render_error s = None \<Longrightarrow>
   results (extract_stored i markdown s) =
     (results s)[i := (results s ! i)\<lparr>status := Processing, rawMarkdown := markdown\<rparr>]"
  unfolding extract_stored_def
  by (cases "i < length (results s)")
     (simp_all add: setResults_at_index [where h = "\<lambda>r. r\<lparr>rawMarkdown := markdown\<rparr>"]
        results_call_pending list_update_beyond)

lemma live_extract_stored [simp]: "live (extract_stored i markdown s) = live s"
  by (simp add: extract_stored_def)

section \<open>Stopping during a call\<close>

lemma pending_after_stop:
  assumes "render_error x = None" and "i < length (results x)"
    and "status (results x ! i) = Processing"
  shows "status (results (handleStop x) ! i) = Pending"
  using assms by (simp add: results_handleStop)

lemma set_pending_after_stop:
  "setResults (set_status i Pending) (handleStop (call_pending c i s)) =
     handleStop (call_pending c i s)"
proof (cases "render_error s")
  case (Some m)
  then have "render_error (handleStop (call_pending c i s)) = Some m" by simp
  then show ?thesis by (rule setResults_unmounted)
next
  case None
  let ?x = "handleStop (call_pending c i s)"
  have m: "render_error ?x = None" using None by simp
  have "(results ?x)[i := (results ?x ! i)\<lparr>status := Pending\<rparr>] = results ?x"
  proof (cases "i < length (results s)")
    case True
    then have "status (results ?x ! i) = Pending"
      using None by (intro pending_after_stop) (simp_all add: results_call_pending)
    then have "(results ?x ! i)\<lparr>status := Pending\<rparr> = results ?x ! i"
      by (metis ResultItem.surjective ResultItem.update_convs(2))
    then show ?thesis by simp
  next
    case False
    then have "length (results ?x) \<le> i"
      using None by (simp add: results_handleStop results_call_pending)
    then show ?thesis by (simp add: list_update_beyond)
  qed
  then show ?thesis using m by (simp add: setResults_set_status)
qed

lemma normal_iteration_stopped:
  assumes "live s" and "stop_during (process_out env i)"
  shows "normal_iteration env i s = (Break, handleStop (call_pending (Process i) i s))"
proof -
  have "fetch_with_signal (Process i) (process_out env i) (setResults (set_status i Processing) s) =
          (Inl AbortError, handleStop (call_pending (Process i) i s))"
    using assms by (simp add: fetch_with_signal_live call_pending_def)
  then show ?thesis
    by (simp add: normal_iteration_def set_pending_after_stop)
qed

lemma batch_extract_iteration_stopped:
  assumes "live s" and "stop_during (extract_out env i)"
  shows "batch_extract_iteration env i (mr, s) =
           (Break, mr, handleStop (call_pending (Extract i) i s))"
proof -
  have "fetch_with_signal (Extract i) (extract_out env i) (setResults (set_status i Processing) s) =
          (Inl AbortError, handleStop (call_pending (Extract i) i s))"
    using assms by (simp add: fetch_with_signal_live call_pending_def)
  then show ?thesis
    by (simp add: batch_extract_iteration_def)
qed

lemma parse_call_stopped:
  assumes "live s" and "stop_during (parse_out env i)"
  shows "parse_call env i markdown s = (Break, handleStop (log_call (Parse i markdown) s))"
  using assms by (simp add: parse_call_def fetch_with_signal_live)

lemma batch_parse_iteration_stopped:
  assumes "live s" and "stop_during (parse_out env i)"
  shows "batch_parse_iteration env (i, markdown) s =
           (Break, handleStop (call_pending (Parse i markdown) i s))"
  using assms parse_call_stopped [of "setResults (set_status i Processing) s" env i markdown]
  by (simp add: batch_parse_iteration_def call_pending_def)

lemma lowvram_iteration_stopped:
  assumes "live s" and "stop_during (extract_out env i)"
  shows "lowvram_iteration env i s = (Break, handleStop (call_pending (Extract i) i s))"
proof -
  have "fetch_with_signal (Extract i) (extract_out env i) (setResults (set_status i Processing) s) =
          (Inl AbortError, handleStop (call_pending (Extract i) i s))"
    using assms by (simp add: fetch_with_signal_live call_pending_def)
  then show ?thesis
    by (simp add: lowvram_iteration_def)
qed

lemma lowvram_iteration_extracted:
  assumes "live s" and "\<not> stop_during (extract_out env i)"
    and "extract_markdown env i = Some markdown"
  shows "lowvram_iteration env i s =
           parse_call env i markdown
             (fetch_without_signal Unload (unload_out env i) (extract_stored i markdown s))"
proof -
  have f: "fetch_with_signal (Extract i) (extract_out env i) (setResults (set_status i Processing) s) =
          (settled (answer (extract_out env i)), call_pending (Extract i) i s)"
    using assms(1,2) by (simp add: fetch_with_signal_live call_pending_def)
  have m: "fetch_markdown env (settled (answer (extract_out env i))) = Inr markdown"
    using assms(2,3) by (simp add: extract_markdown_def split: sum.splits)
  show ?thesis
    by (simp add: lowvram_iteration_def f m extract_stored_def Let_def)
qed

lemma lowvram_iteration_stopped_late:
  assumes "live s" and "\<not> stop_during (extract_out env i)"
    and "extract_markdown env i = Some markdown"
    and "stop_during (unload_out env i) \<or> stop_during (parse_out env i)"
  shows "lowvram_iteration env i s =
           (Break,
            if stop_during (unload_out env i)
            then log_call (Parse i markdown) (handleStop (log_call Unload (extract_stored i markdown s)))
            else handleStop (log_call (Parse i markdown) (log_call Unload (extract_stored i markdown s))))"
proof (cases "stop_during (unload_out env i)")
  case True
  have "aborted (handleStop (log_call Unload (extract_stored i markdown s)))"
    using assms(1) by (simp add: aborted_handleStop)
  from parse_call_aborted [OF this] True show ?thesis
    by (simp add: lowvram_iteration_extracted [OF assms(1,2,3)] fetch_without_signal_def Let_def)
next
  case False
  with assms(4) have p: "stop_during (parse_out env i)" by simp
  have "live (log_call Unload (extract_stored i markdown s))" using assms(1) by simp
  from parse_call_stopped [OF this p] False show ?thesis
    by (simp add: lowvram_iteration_extracted [OF assms(1,2,3)] fetch_without_signal_def Let_def)
qed

lemma for_loop_break:
  "\<not> stop a \<Longrightarrow> body x a = (Break, a') \<Longrightarrow> for_loop body stop (x # xs) a = a'"
  by simp

lemma for_loop_continue:
  "\<not> stop a \<Longrightarrow> body x a = (Continue, a') \<Longrightarrow>
   for_loop body stop (x # xs) a = for_loop body stop xs a'"
  by simp

lemma results_handleStop_log_call [simp]:
  "results (handleStop (log_call c x)) = results (handleStop x)"
  by (cases "render_error x")
     (simp_all add: handleStop_def setResults_def Let_def log_call_def split: option.splits)

lemma handleBatchProcessing_cancelled:
  assumes "live s" and "phase1_cancelled files env"
  shows "handleBatchProcessing files env s = snd (batch_phase1 files env s)"
proof -
  from batch_phase1_trace [OF assms(1), of files env] assms(2)
  have "aborted (snd (batch_phase1 files env s))" by simp
  then show ?thesis
    by (cases "batch_phase1 files env s") (simp add: handleBatchProcessing_def)
qed

section \<open>A stage that fails\<close>

lemma fetch_json_failed:
  "fetch_json env fallback (Inr (False, b)) = Inl (OtherError (failure_message env b fallback))"
  by (simp add: fetch_json_def failure_message_def split: body.splits sum.splits)

lemma settled_response [simp]: "settled (Response ok b) = Inr (ok, b)"
  by (simp add: settled_def)

lemma fetch_markdown_failed:
  "fetch_markdown env (Inr (False, b)) = Inl (OtherError (failure_message env b ''OCR failed''))"
  by (simp add: fetch_markdown_def fetch_json_failed)

lemma failure_message_detail:
  "failure_message env (JsonBody (JObj [(''detail'', JStr d)])) fallback = (if d = [] then fallback else d)"
  by (simp add: failure_message_def detail_or_def)

lemma error_after_processing:
  assumes "render_error s = None" and "i < length (results s)"
  shows "setResults (set_error i m) (log_call c (setResults (set_status i Processing) s)) =
           resolved [c] i (failed_with m) s"
  using assms
  by (simp add: setResults_set_status setResults_set_error resolved_def failed_with_def log_call_def)

lemma normal_iteration_failed:
  assumes "live s" and "render_error s = None" and "i < length (results s)"
    and "process_out env i = Outcome False (Response False b)"
  shows "normal_iteration env i s =
           (Continue, resolved [Process i] i (failed_with (failure_message env b ''Processing failed'')) s)"
  using assms
  by (simp add: normal_iteration_def fetch_with_signal_live fetch_json_failed error_after_processing)

lemma batch_extract_iteration_failed:
  assumes "live s" and "render_error s = None" and "i < length (results s)"
    and "extract_out env i = Outcome False (Response False b)"
  shows "batch_extract_iteration env i (mr, s) =
           (Continue, mr, resolved [Extract i] i (failed_with (failure_message env b ''OCR failed'')) s)"
  using assms
  by (simp add: batch_extract_iteration_def fetch_with_signal_live fetch_markdown_failed
        error_after_processing)

lemma lowvram_iteration_failed:
  assumes "live s" and "render_error s = None" and "i < length (results s)"
    and "extract_out env i = Outcome False (Response False b)"
  shows "lowvram_iteration env i s =
           (Continue, resolved [Extract i] i (failed_with (failure_message env b ''OCR failed'')) s)"
  using assms
  by (simp add: lowvram_iteration_def fetch_with_signal_live fetch_markdown_failed
        error_after_processing)

lemma batch_parse_iteration_failed:
  assumes "live s" and "render_error s = None" and "i < length (results s)"
    and "parse_out env i = Outcome False (Response False b)"
  shows "batch_parse_iteration env (i, md) s =
           (Continue, resolved [Parse i md] i (failed_with (failure_message env b ''Parse failed'')) s)"
  using assms
  by (simp add: batch_parse_iteration_def parse_call_def fetch_with_signal_live fetch_json_failed
        error_after_processing)

lemma until_first_never:
  "never_stopped files env \<Longrightarrow>
   until_first (\<lambda>i. stop_during (process_out env i)) [0..<length files] = [0..<length files] \<and>
   until_first (\<lambda>i. stop_during (extract_out env i)) [0..<length files] = [0..<length files] \<and>
   until_first (lowvram_stopped env) [0..<length files] = [0..<length files] \<and>
   \<not> phase1_cancelled files env"
  by (auto simp: never_stopped_def phase1_cancelled_def list_all_iff list_ex_iff
        lowvram_stopped_def intro!: until_first_none split: option.splits)

lemma until_first_never_parse:
  "never_stopped files env \<Longrightarrow>
   until_first (\<lambda>im. stop_during (parse_out env (fst im)))
     (concat (map (extracted env) [0..<length files])) =
   concat (map (extracted env) [0..<length files])"
  by (rule until_first_none)
     (auto simp: never_stopped_def list_all_iff list_ex_iff extracted_def split: option.splits)

lemma runs_complete:
  assumes "never_stopped files env"
  shows "calls (handleStart files Performance env s) = calls s @ map Process [0..<length files]"
    and "calls (handleStart files Batch env s) =
           calls s @ map Extract [0..<length files] @ [Unload] @
           map parse_of (concat (map (extracted env) [0..<length files]))"
    and "calls (handleStart files LowVram env s) =
           calls s @ concat (map (lowvram_job_calls env) [0..<length files])"
  using until_first_never [OF assms] until_first_never_parse [OF assms] assms
  by (simp_all add: handleStart_calls batch_calls_def never_stopped_def)

section \<open>A stage that answers with an object\<close>

lemma fetch_json_object:
  "fetch_json env fallback (Inr (True, JsonBody data)) = Inr data"
  by (simp add: fetch_json_def)

lemma fetch_markdown_object:
  "fetch_markdown env (Inr (True, JsonBody (JObj kvs))) = Inr (map_of (rev kvs) ''markdown'')"
  by (simp add: fetch_markdown_def fetch_json_object)

lemma extract_markdown_object:
  "extract_out env i = Outcome False (Response True (JsonBody (JObj kvs))) \<Longrightarrow>
   extract_markdown env i = Some (map_of (rev kvs) ''markdown'')"
  by (simp add: extract_markdown_def fetch_markdown_object)

lemma extracted_failed:
  "extract_out env i = Outcome False (Response False b) \<Longrightarrow> extracted env i = []"
  by (simp add: extracted_def extract_markdown_def fetch_markdown_failed)

lemma update_after_processing:
  assumes "render_error s = None" and "i < length (results s)"
    and "\<And>r. g r = Inr (h r)" and "\<And>r. h (r\<lparr>status := Processing\<rparr>) = h r"
  shows "setResults (at_index i g) (log_call c (setResults (set_status i Processing) s)) =
           resolved [c] i h s"
proof -
  let ?s1 = "log_call c (setResults (set_status i Processing) s)"
  have m: "render_error ?s1 = None" using assms(1) by simp
  have r: "results ?s1 = (results s)[i := (results s ! i)\<lparr>status := Processing\<rparr>]"
    using assms(1) by (simp add: setResults_set_status)
  have e: "setResults (at_index i g) ?s1 = ?s1\<lparr>results := (results ?s1)[i := h (results ?s1 ! i)]\<rparr>"
    by (rule setResults_at_index [of g h, OF assms(3) m])
  have u: "(results ?s1)[i := h (results ?s1 ! i)] = (results s)[i := h (results s ! i)]"
    using assms(2,4) by (simp add: setResults_set_status [OF assms(1)])
  show ?thesis
    unfolding e u
    by (simp add: resolved_def log_call_def setResults_set_status [OF assms(1)])
qed

lemma normal_iteration_object:
  assumes "live s" and "render_error s = None" and "i < length (results s)"
    and "process_out env i = Outcome False (Response True (JsonBody (JObj kvs)))"
  shows "normal_iteration env i s =
           (Continue, resolved [Process i] i
              (processed_with (map_of (rev kvs) ''raw_output'') (map_of (rev kvs) ''parsed_data'')
                 (elapsed env i)) s)"
proof -
  have "setResults (process_success env i (JObj kvs))
          (log_call (Process i) (setResults (set_status i Processing) s)) =
        resolved [Process i] i
          (processed_with (map_of (rev kvs) ''raw_output'') (map_of (rev kvs) ''parsed_data'')
             (elapsed env i)) s"
    unfolding process_success_def
    by (rule update_after_processing [OF assms(2,3)]) (simp_all add: processed_with_def)
  then show ?thesis
    using assms(1,4)
    by (simp add: normal_iteration_def fetch_with_signal_live fetch_json_object)
qed

lemma batch_extract_iteration_object:
  assumes "live s" and "render_error s = None" and "i < length (results s)"
    and "extract_out env i = Outcome False (Response True (JsonBody (JObj kvs)))"
  shows "batch_extract_iteration env i (mr, s) =
           (Continue, mr @ [(i, map_of (rev kvs) ''markdown'')],
            resolved [Extract i] i (extracted_with (map_of (rev kvs) ''markdown'')) s)"
proof -
  have "setResults (at_index i (\<lambda>r. Inr (r\<lparr>rawMarkdown := map_of (rev kvs) ''markdown'', status := Pending\<rparr>)))
          (log_call (Extract i) (setResults (set_status i Processing) s)) =
        resolved [Extract i] i (extracted_with (map_of (rev kvs) ''markdown'')) s"
    by (rule update_after_processing [OF assms(2,3)]) (simp_all add: extracted_with_def)
  then show ?thesis
    using assms(1,4)
    by (simp add: batch_extract_iteration_def fetch_with_signal_live fetch_markdown_object)
qed

lemma batch_parse_iteration_object:
  assumes "live s" and "render_error s = None" and "i < length (results s)"
    and "parse_out env i = Outcome False (Response True (JsonBody (JObj kvs)))"
  shows "batch_parse_iteration env (i, md) s =
           (Continue, resolved [Parse i md] i
              (parsed_with (map_of (rev kvs) ''parsed_data'') (elapsed env i)) s)"
proof -
  have "setResults (parse_success env i (JObj kvs))
          (log_call (Parse i md) (setResults (set_status i Processing) s)) =
        resolved [Parse i md] i (parsed_with (map_of (rev kvs) ''parsed_data'') (elapsed env i)) s"
    unfolding parse_success_def
    by (rule update_after_processing [OF assms(2,3)]) (simp_all add: parsed_with_def)
  then show ?thesis
    using assms(1,4)
    by (simp add: batch_parse_iteration_def parse_call_def fetch_with_signal_live fetch_json_object)
qed

lemma lowvram_iteration_object:
  assumes "live s"
    and "extract_out env i = Outcome False (Response True (JsonBody (JObj kvs)))"
  shows "lowvram_iteration env i s =
           parse_call env i (map_of (rev kvs) ''markdown'')
             (fetch_without_signal Unload (unload_out env i)
                (extract_stored i (map_of (rev kvs) ''markdown'') s))"
  using assms(2)
  by (intro lowvram_iteration_extracted [OF assms(1)] extract_markdown_object) simp_all

lemma live_resolved [simp]: "live (resolved cs i h s) = live s"
  by (simp add: resolved_def live_def)

lemma aborted_resolved [simp]: "aborted (resolved cs i h s) = aborted s"
  by (simp add: resolved_def aborted_def)

lemma get_prop_missing:
  "key \<notin> fst ` set kvs \<Longrightarrow> get_prop (JObj kvs) key = Inr None"
  by (simp add: map_of_eq_None_iff)

lemma parse_call_object:
  assumes "live s" and "render_error s = None"
    and "parse_out env i = Outcome False (Response True (JsonBody (JObj kvs)))"
  shows "parse_call env i md s =
           (Continue, resolved [Parse i md] i
              (parsed_with (map_of (rev kvs) ''parsed_data'') (elapsed env i)) s)"
proof -
  let ?h = "parsed_with (map_of (rev kvs) ''parsed_data'') (elapsed env i)"
  have "setResults (parse_success env i (JObj kvs)) (log_call (Parse i md) s) =
          (log_call (Parse i md) s)\<lparr>results :=
             (results (log_call (Parse i md) s))[i := ?h (results (log_call (Parse i md) s) ! i)]\<rparr>"
    unfolding parse_success_def
    by (rule setResults_at_index) (simp_all add: parsed_with_def assms(2))
  then show ?thesis
    using assms(1,3)
    by (simp add: parse_call_def fetch_with_signal_live fetch_json_object resolved_def log_call_def)
qed

section \<open>No job stays Processing\<close>

lemma settled_jobs_handleStop: "settled_jobs (handleStop s)"
  by (cases "render_error s")
     (auto simp: settled_jobs_def results_handleStop list_all_iff)

lemma settled_but_log_call [simp]: "settled_but i (log_call c s) = settled_but i s"
  by (cases "render_error s") (simp_all add: settled_but_def)

lemma settled_jobs_log_call [simp]: "settled_jobs (log_call c s) = settled_jobs s"
  by (cases "render_error s") (simp_all add: settled_jobs_def)

lemma map_with_index_shape:
  "map_with_index (\<lambda>idx r. if idx = i then g r else Inr r) k rs = Inr rs' \<Longrightarrow>
   length rs' = length rs \<and>
   (\<forall>j<length rs. k + j \<noteq> i \<longrightarrow> rs' ! j = rs ! j) \<and>
   (\<forall>j<length rs. k + j = i \<longrightarrow> g (rs ! j) = Inr (rs' ! j))"
proof (induction rs arbitrary: k rs')
  case Nil
  then show ?case by simp
next
  case (Cons r rs)
  from Cons.prems obtain r' rs'' where
    h: "(if k = i then g r else Inr r) = Inr r'"
    and t: "map_with_index (\<lambda>idx r. if idx = i then g r else Inr r) (Suc k) rs = Inr rs''"
    and e: "rs' = r' # rs''"
    by (auto split: sum.splits)
  from Cons.IH [OF t] have
    l: "length rs'' = length rs"
    and o: "\<forall>j<length rs. Suc k + j \<noteq> i \<longrightarrow> rs'' ! j = rs ! j"
    and a: "\<forall>j<length rs. Suc k + j = i \<longrightarrow> g (rs ! j) = Inr (rs'' ! j)"
    by simp_all
  show ?case
  proof (intro conjI allI impI)
    show "length rs' = length (r # rs)" using l e by simp
  next
    fix j assume "j < length (r # rs)" "k + j \<noteq> i"
    then show "rs' ! j = (r # rs) ! j"
      using h o e by (cases j) (auto split: if_splits)
  next
    fix j assume "j < length (r # rs)" "k + j = i"
    then show "g ((r # rs) ! j) = Inr (rs' ! j)"
      using h a e by (cases j) (auto split: if_splits)
  qed
qed

lemma at_index_shape:
  assumes "at_index i g rs = Inr rs'"
  shows "length rs' = length rs"
    and "take i rs' = take i rs"
    and "drop (Suc i) rs' = drop (Suc i) rs"
    and "i < length rs \<Longrightarrow> g (rs ! i) = Inr (rs' ! i)"
proof -
  from map_with_index_shape [OF assms [unfolded at_index_def]]
  have l: "length rs' = length rs"
    and o: "\<forall>j<length rs. j \<noteq> i \<longrightarrow> rs' ! j = rs ! j"
    and a: "\<forall>j<length rs. j = i \<longrightarrow> g (rs ! j) = Inr (rs' ! j)"
    by simp_all
  show "length rs' = length rs" by (rule l)
  show "take i rs' = take i rs"
    using l o by (intro nth_equalityI) simp_all
  show "drop (Suc i) rs' = drop (Suc i) rs"
    using l o by (intro nth_equalityI) simp_all
  show "i < length rs \<Longrightarrow> g (rs ! i) = Inr (rs' ! i)"
    using a by simp
qed

lemma settled_but_at_index:
  "settled_but i s \<Longrightarrow> settled_but i (setResults (at_index i g) s)"
proof (cases "render_error s")
  case (Some m)
  then show ?thesis by (simp add: setResults_def settled_but_def)
next
  case None
  assume b: "settled_but i s"
  show ?thesis
  proof (cases "at_index i g (results s)")
    case (Inl m)
    with None show ?thesis by (simp add: setResults_def settled_but_def)
  next
    case (Inr rs')
    from at_index_shape(2,3) [OF Inr] b None Inr show ?thesis
      by (simp add: setResults_def settled_but_def)
  qed
qed

lemma settled_jobs_but: "settled_jobs s \<Longrightarrow> settled_but i s"
  by (cases "render_error s")
     (auto simp: settled_jobs_def settled_but_def list_all_iff dest: in_set_takeD in_set_dropD)

lemma settled_jobs_at_index:
  assumes "settled_but i s"
    and "\<And>r r'. g r = Inr r' \<Longrightarrow> status r' \<noteq> Processing"
  shows "settled_jobs (setResults (at_index i g) s)"
proof (cases "render_error s")
  case (Some m)
  then show ?thesis by (simp add: setResults_def settled_jobs_def)
next
  case None
  show ?thesis
  proof (cases "at_index i g (results s)")
    case (Inl m)
    with None show ?thesis by (simp add: setResults_def settled_jobs_def)
  next
    case (Inr rs')
    note sh = at_index_shape [OF Inr]
    have b: "list_all (\<lambda>r. status r \<noteq> Processing) (take i rs' @ drop (Suc i) rs')"
      using assms(1) None sh(2,3) by (simp add: settled_but_def)
    have "list_all (\<lambda>r. status r \<noteq> Processing) rs'"
    proof (cases "i < length rs'")
      case True
      then have "status (rs' ! i) \<noteq> Processing"
        using sh(1,4) assms(2) by metis
      moreover have "rs' = take i rs' @ rs' ! i # drop (Suc i) rs'"
        using True by (rule id_take_nth_drop)
      then have "set rs' = set (take i rs' @ drop (Suc i) rs') \<union> {rs' ! i}"
        by (metis Un_insert_right list.simps(15) set_append sup_bot.right_neutral)
      ultimately show ?thesis using b
        by (simp add: list_all_iff)
    next
      case False
      then show ?thesis using b by simp
    qed
    with None Inr show ?thesis by (simp add: setResults_def settled_jobs_def)
  qed
qed

lemma settled_but_processing:
  "settled_jobs s \<Longrightarrow> settled_but i (setResults (set_status i Processing) s)"
  unfolding set_status_def by (intro settled_but_at_index settled_jobs_but)

lemma settled_jobs_set_error:
  "settled_but i s \<Longrightarrow> settled_jobs (setResults (set_error i m) s)"
  unfolding set_error_def by (rule settled_jobs_at_index) auto

lemma settled_jobs_set_pending:
  "settled_but i s \<Longrightarrow> settled_jobs (setResults (set_status i Pending) s)"
  unfolding set_status_def by (rule settled_jobs_at_index) auto

lemma settled_jobs_process_success:
  "settled_but i s \<Longrightarrow> settled_jobs (setResults (process_success env i data) s)"
  unfolding process_success_def
  by (rule settled_jobs_at_index) (auto split: sum.splits)

lemma settled_jobs_parse_success:
  "settled_but i s \<Longrightarrow> settled_jobs (setResults (parse_success env i data) s)"
  unfolding parse_success_def
  by (rule settled_jobs_at_index) (auto split: sum.splits)

lemma fetch_with_signal_settled_but:
  assumes "settled_but i s" and "fetch_with_signal c out s = (fr, s')"
  shows "settled_but i s'"
proof -
  have "s' = log_call c s \<or> s' = handleStop (log_call c s)"
    using assms(2)
    by (auto simp: fetch_with_signal_def Let_def split: option.splits bool.splits if_splits)
  then show ?thesis
    using assms(1) settled_jobs_handleStop [of "log_call c s"]
    by (auto intro: settled_jobs_but)
qed

lemma normal_iteration_settled:
  assumes "settled_jobs s" and "normal_iteration env i s = (ctl, s')"
  shows "settled_jobs s'"
proof -
  obtain fr s2 where
    f: "fetch_with_signal (Process i) (process_out env i) (setResults (set_status i Processing) s) = (fr, s2)"
    by (cases "fetch_with_signal (Process i) (process_out env i) (setResults (set_status i Processing) s)")
  have b: "settled_but i s2"
    using settled_but_processing [OF assms(1)] f by (rule fetch_with_signal_settled_but)
  from assms(2) f b show ?thesis
    by (auto simp: normal_iteration_def settled_jobs_process_success settled_jobs_set_error
          settled_jobs_set_pending split: sum.splits thrown.splits)
qed

lemma fetch_with_signal_abort:
  assumes "fetch_with_signal c out s = (Inl AbortError, s')"
  shows "(aborted s \<and> s' = log_call c s) \<or> s' = handleStop (log_call c s)"
proof (cases "abortController s")
  case None
  with assms show ?thesis
    by (auto simp: fetch_with_signal_def Let_def settled_def split: response.splits if_splits)
next
  case (Some b)
  with assms show ?thesis
    by (cases b)
       (auto simp: fetch_with_signal_def Let_def settled_def aborted_def
          split: response.splits if_splits)
qed

lemma fetch_json_abort_iff: "fetch_json env fallback fr = Inl AbortError \<longleftrightarrow> fr = Inl AbortError"
  by (auto simp: fetch_json_def split: sum.splits prod.splits if_splits body.splits)

lemma fetch_markdown_abort_iff: "fetch_markdown env fr = Inl AbortError \<longleftrightarrow> fr = Inl AbortError"
  by (auto simp: fetch_markdown_def fetch_json_abort_iff split: sum.splits)

lemma fetch_with_signal_aborted_after:
  assumes "fetch_with_signal c out s = (fr, s')" and "aborted s'"
  shows "fr = Inl AbortError"
proof (cases "abortController s")
  case None
  with assms show ?thesis
    by (auto simp: fetch_with_signal_def Let_def aborted_def split: if_splits)
next
  case (Some b)
  with assms show ?thesis
    by (cases b) (auto simp: fetch_with_signal_def Let_def aborted_def split: if_splits)
qed

lemma parse_call_settled:
  assumes "settled_but i s" and "aborted s \<Longrightarrow> settled_jobs s"
    and "parse_call env i md s = (ctl, s')"
  shows "settled_jobs s'"
proof -
  obtain fr s1 where f: "fetch_with_signal (Parse i md) (parse_out env i) s = (fr, s1)"
    by (cases "fetch_with_signal (Parse i md) (parse_out env i) s")
  have b: "settled_but i s1"
    using assms(1) f by (rule fetch_with_signal_settled_but)
  show ?thesis
  proof (cases "fr = Inl AbortError")
    case True
    with f fetch_with_signal_abort [of "Parse i md" "parse_out env i" s s1]
    have "(aborted s \<and> s1 = log_call (Parse i md) s) \<or> s1 = handleStop (log_call (Parse i md) s)"
      by simp
    then have "settled_jobs s1"
      using assms(2) settled_jobs_handleStop by auto
    with assms(3) f True show ?thesis by (simp add: parse_call_def)
  next
    case False
    then have "fetch_json env ''Parse failed'' fr \<noteq> Inl AbortError"
      by (simp add: fetch_json_abort_iff)
    with assms(3) f b show ?thesis
      by (auto simp: parse_call_def settled_jobs_parse_success settled_jobs_set_error
            split: sum.splits thrown.splits)
  qed
qed

lemma batch_parse_iteration_settled:
  assumes "settled_jobs s" and "\<not> aborted s" and "batch_parse_iteration env im s = (ctl, s')"
  shows "settled_jobs s'"
proof -
  obtain i md where im: "im = (i, md)" by (cases im)
  from assms(3) have p: "parse_call env i md (setResults (set_status i Processing) s) = (ctl, s')"
    by (simp add: batch_parse_iteration_def im)
  show ?thesis
    by (rule parse_call_settled [OF settled_but_processing [OF assms(1)] _ p])
       (use assms(2) in simp)
qed

lemma batch_extract_iteration_settled:
  assumes "settled_jobs s" and "\<not> aborted s"
    and "batch_extract_iteration env i (mr, s) = (ctl, mr', s')"
  shows "settled_jobs s'"
proof -
  obtain fr s2 where
    f: "fetch_with_signal (Extract i) (extract_out env i) (setResults (set_status i Processing) s) = (fr, s2)"
    by (cases "fetch_with_signal (Extract i) (extract_out env i) (setResults (set_status i Processing) s)")
  have b: "settled_but i s2"
    using settled_but_processing [OF assms(1)] f by (rule fetch_with_signal_settled_but)
  show ?thesis
  proof (cases "fr = Inl AbortError")
    case True
    with f fetch_with_signal_abort [of "Extract i" "extract_out env i"
        "setResults (set_status i Processing) s" s2] assms(2)
    have "s2 = handleStop (log_call (Extract i) (setResults (set_status i Processing) s))"
      by auto
    then have "settled_jobs s2" by (simp add: settled_jobs_handleStop)
    with assms(3) f True show ?thesis by (simp add: batch_extract_iteration_def)
  next
    case False
    then have nm: "fetch_markdown env fr \<noteq> Inl AbortError"
      by (simp add: fetch_markdown_abort_iff)
    have e: "settled_jobs (setResults (at_index i (\<lambda>r. Inr (r\<lparr>rawMarkdown := md, status := Pending\<rparr>))) s2)" for md
      by (rule settled_jobs_at_index [OF b]) auto
    from nm assms(3) f b e show ?thesis
      by (auto simp: batch_extract_iteration_def settled_jobs_set_error
            split: sum.splits thrown.splits)
  qed
qed

lemma lowvram_iteration_settled:
  assumes "settled_jobs s" and "\<not> aborted s" and "lowvram_iteration env i s = (ctl, s')"
  shows "settled_jobs s'"
proof -
  obtain fr s2 where
    f: "fetch_with_signal (Extract i) (extract_out env i) (setResults (set_status i Processing) s) = (fr, s2)"
    by (cases "fetch_with_signal (Extract i) (extract_out env i) (setResults (set_status i Processing) s)")
  have b: "settled_but i s2"
    using settled_but_processing [OF assms(1)] f by (rule fetch_with_signal_settled_but)
  show ?thesis
  proof (cases "fetch_markdown env fr")
    case (Inl t)
    show ?thesis
    proof (cases t)
      case AbortError
      with Inl have "fr = Inl AbortError"
        by (simp add: fetch_markdown_abort_iff)
      with f fetch_with_signal_abort [of "Extract i" "extract_out env i"
          "setResults (set_status i Processing) s" s2] assms(2)
      have "s2 = handleStop (log_call (Extract i) (setResults (set_status i Processing) s))"
        by auto
      then have "settled_jobs s2" by (simp add: settled_jobs_handleStop)
      with assms(3) f Inl AbortError show ?thesis by (simp add: lowvram_iteration_def)
    next
      case (OtherError m)
      with assms(3) f Inl b show ?thesis
        by (auto simp: lowvram_iteration_def settled_jobs_set_error)
    qed
  next
    case (Inr md)
    define s3 where "s3 = setResults (at_index i (\<lambda>r. Inr (r\<lparr>rawMarkdown := md\<rparr>))) s2"
    define s4 where "s4 = fetch_without_signal Unload (unload_out env i) s3"
    have b3: "settled_but i s3" unfolding s3_def using b by (rule settled_but_at_index)
    have p: "parse_call env i md s4 = (ctl, s')"
      using assms(3) f Inr by (simp add: lowvram_iteration_def s3_def s4_def Let_def)
    have na2: "\<not> aborted s2"
    proof
      assume "aborted s2"
      with f have "fr = Inl AbortError" by (rule fetch_with_signal_aborted_after)
      with Inr show False by simp
    qed
    have b4: "settled_but i s4" and a4: "aborted s4 \<Longrightarrow> settled_jobs s4"
    proof -
      have c: "s4 = log_call Unload s3 \<or> s4 = handleStop (log_call Unload s3)"
        by (simp add: s4_def fetch_without_signal_def Let_def)
      then show "settled_but i s4"
        using b3 settled_jobs_handleStop [of "log_call Unload s3"]
        by (auto intro: settled_jobs_but)
      assume "aborted s4"
      with c na2 have "s4 = handleStop (log_call Unload s3)"
        by (auto simp: s3_def)
      then show "settled_jobs s4" by (simp add: settled_jobs_handleStop)
    qed
    from parse_call_settled [OF b4 a4 p] show ?thesis .
  qed
qed

lemma pending_initialResults: "list_all (\<lambda>r. status r \<noteq> Processing) (initialResults files n)"
  by (induction files arbitrary: n) simp_all

lemma settled_jobs_start_setup: "settled_jobs (start_setup files s)"
  by (cases "render_error s")
     (simp_all add: start_setup_def Let_def setResults_def settled_jobs_def pending_initialResults)

lemma handleNormalProcessing_settled:
  "settled_jobs s \<Longrightarrow> settled_jobs (handleNormalProcessing files env s)"
  unfolding handleNormalProcessing_def
  by (rule for_loop_invariant [where P = settled_jobs]) (auto intro: normal_iteration_settled)

lemma handleLowVramProcessing_settled:
  "settled_jobs s \<Longrightarrow> settled_jobs (handleLowVramProcessing files env s)"
  unfolding handleLowVramProcessing_def
  by (rule for_loop_invariant [where P = settled_jobs]) (auto intro: lowvram_iteration_settled)

lemma batch_phase1_settled:
  assumes "settled_jobs s"
  shows "settled_jobs (snd (batch_phase1 files env s))"
  unfolding batch_phase1_def
proof (rule for_loop_invariant [where P = "\<lambda>ms. settled_jobs (snd ms)"])
  show "settled_jobs (snd (([], s) :: markdown_results \<times> app_state))" using assms by simp
next
  fix x and a :: "markdown_results \<times> app_state" and ctl a'
  assume "settled_jobs (snd a)" and "\<not> aborted (snd a)"
    and "batch_extract_iteration env x a = (ctl, a')"
  then show "settled_jobs (snd a')"
    using batch_extract_iteration_settled [of "snd a" env x "fst a" ctl "fst a'" "snd a'"]
    by simp
qed

lemma fetch_without_signal_settled:
  "settled_jobs s \<Longrightarrow> settled_jobs (fetch_without_signal c out s)"
  by (simp add: fetch_without_signal_def Let_def settled_jobs_handleStop)

lemma handleBatchProcessing_settled:
  assumes "settled_jobs s"
  shows "settled_jobs (handleBatchProcessing files env s)"
proof -
  obtain mr s1 where p: "batch_phase1 files env s = (mr, s1)"
    by (cases "batch_phase1 files env s")
  with batch_phase1_settled [OF assms, of files env] have s1: "settled_jobs s1" by simp
  have "settled_jobs (for_loop (batch_parse_iteration env) aborted mr
          (fetch_without_signal Unload (batch_unload_out env) s1))"
    by (rule for_loop_invariant [where P = settled_jobs])
       (auto intro: batch_parse_iteration_settled fetch_without_signal_settled s1)
  with s1 p show ?thesis by (simp add: handleBatchProcessing_def)
qed

lemma handleStart_settled: "settled_jobs (handleStart files mode env s)"
proof -
  have e: "settled_jobs (x\<lparr>isProcessing := False, abortController := None\<rparr>) = settled_jobs x" for x
    by (cases "render_error x") (simp_all add: settled_jobs_def)
  show ?thesis
    by (cases mode)
       (simp_all add: handleStart_def e settled_jobs_start_setup handleNormalProcessing_settled
          handleBatchProcessing_settled handleLowVramProcessing_settled)
qed

lemma handleStart_no_processing:
  "render_error (handleStart files mode env s) = None \<longrightarrow>
   (\<forall>r\<in>set (results (handleStart files mode env s)). status r \<noteq> Processing)"
  using handleStart_settled [of files mode env s]
  by (auto simp: settled_jobs_def list_all_iff)

section \<open>Starting a run revokes nothing\<close>

lemma fetch_with_signal_revoked:
  "fetch_with_signal c out s = (fr, s') \<Longrightarrow> revoked s' = revoked s"
  by (auto simp: fetch_with_signal_def Let_def split: option.splits bool.splits if_splits)

lemma fetch_without_signal_revoked [simp]:
  "revoked (fetch_without_signal c out s) = revoked s"
  by (simp add: fetch_without_signal_def Let_def)

lemma normal_iteration_revoked:
  "normal_iteration env i s = (ctl, s') \<Longrightarrow> revoked s' = revoked s"
  by (auto simp: normal_iteration_def split: prod.splits sum.splits thrown.splits
        dest!: fetch_with_signal_revoked)

lemma parse_call_revoked:
  "parse_call env i md s = (ctl, s') \<Longrightarrow> revoked s' = revoked s"
  by (auto simp: parse_call_def split: prod.splits sum.splits thrown.splits
        dest!: fetch_with_signal_revoked)

lemma batch_parse_iteration_revoked:
  "batch_parse_iteration env im s = (ctl, s') \<Longrightarrow> revoked s' = revoked s"
  by (auto simp: batch_parse_iteration_def split: prod.splits dest!: parse_call_revoked)

lemma batch_extract_iteration_revoked:
  "batch_extract_iteration env i ms = (ctl, ms') \<Longrightarrow> revoked (snd ms') = revoked (snd ms)"
  by (auto simp: batch_extract_iteration_def split: prod.splits sum.splits thrown.splits
        dest!: fetch_with_signal_revoked)

lemma lowvram_iteration_revoked:
  "lowvram_iteration env i s = (ctl, s') \<Longrightarrow> revoked s' = revoked s"
  by (auto simp: lowvram_iteration_def Let_def split: prod.splits sum.splits thrown.splits
        dest!: fetch_with_signal_revoked parse_call_revoked)

lemma handleStart_revoked: "revoked (handleStart files mode env s) = revoked s"
proof -
  have n: "revoked (handleNormalProcessing files env x) = revoked x" for x
    unfolding handleNormalProcessing_def
    by (rule for_loop_invariant [where P = "\<lambda>a. revoked a = revoked x"])
       (auto dest: normal_iteration_revoked)
  have l: "revoked (handleLowVramProcessing files env x) = revoked x" for x
    unfolding handleLowVramProcessing_def
    by (rule for_loop_invariant [where P = "\<lambda>a. revoked a = revoked x"])
       (auto dest: lowvram_iteration_revoked)
  have p1: "revoked (snd (batch_phase1 files env x)) = revoked x" for x
    unfolding batch_phase1_def
    by (rule for_loop_invariant [where P = "\<lambda>a. revoked (snd a) = revoked x"])
       (auto dest: batch_extract_iteration_revoked)
  have p3: "revoked (for_loop (batch_parse_iteration env) aborted mr x) = revoked x" for mr x
    by (rule for_loop_invariant [where P = "\<lambda>a. revoked a = revoked x"])
       (auto dest: batch_parse_iteration_revoked)
  have b: "revoked (handleBatchProcessing files env x) = revoked x" for x
    using p1 [of x] by (cases "batch_phase1 files env x") (simp add: handleBatchProcessing_def p3)
  show ?thesis
    by (cases mode) (simp_all add: handleStart_def n l b)
qed

section \<open>A job is only changed by its own iteration\<close>

lemma job_is_unmounted: "render_error s = Some m \<Longrightarrow> job_is j r s"
  by (simp add: job_is_def)

lemma job_is_log_call [simp]: "job_is j r (log_call c s) = job_is j r s"
  by (cases "render_error s") (simp_all add: job_is_def)

lemma job_is_setResults_other:
  assumes "y \<noteq> j" and "job_is j r s"
  shows "job_is j r (setResults (at_index y g) s)"
proof (cases "render_error s")
  case (Some m)
  then show ?thesis by (simp add: setResults_def job_is_def)
next
  case None
  show ?thesis
  proof (cases "at_index y g (results s)")
    case (Inl m)
    with None show ?thesis by (simp add: setResults_def job_is_def)
  next
    case (Inr rs')
    from map_with_index_shape [OF Inr [unfolded at_index_def]]
    have l: "length rs' = length (results s)"
      and o: "\<forall>k<length (results s). k \<noteq> y \<longrightarrow> rs' ! k = results s ! k"
      by simp_all
    from assms None l o Inr show ?thesis
      by (auto simp: setResults_def job_is_def)
  qed
qed

lemma job_is_handleStop:
  assumes "status r \<noteq> Processing" and "job_is j r s"
  shows "job_is j r (handleStop s)"
proof (cases "render_error s")
  case (Some m)
  then show ?thesis by (simp add: job_is_def)
next
  case None
  with assms show ?thesis by (auto simp: job_is_def results_handleStop)
qed

lemma job_is_fetch_with_signal:
  assumes "status r \<noteq> Processing" and "job_is j r s"
    and "fetch_with_signal c out s = (fr, s')"
  shows "job_is j r s'"
proof -
  have "s' = log_call c s \<or> s' = handleStop (log_call c s)"
    using assms(3)
    by (auto simp: fetch_with_signal_def Let_def split: option.splits bool.splits if_splits)
  then show ?thesis
    using assms(1,2) job_is_handleStop [of r j "log_call c s"] by auto
qed

lemma job_is_fetch_without_signal:
  assumes "status r \<noteq> Processing" and "job_is j r s"
  shows "job_is j r (fetch_without_signal c out s)"
  using assms job_is_handleStop [of r j "log_call c s"]
  by (simp add: fetch_without_signal_def Let_def)

lemma job_is_set_status: "y \<noteq> j \<Longrightarrow> job_is j r s \<Longrightarrow> job_is j r (setResults (set_status y st) s)"
  unfolding set_status_def by (rule job_is_setResults_other)

lemma job_is_set_error: "y \<noteq> j \<Longrightarrow> job_is j r s \<Longrightarrow> job_is j r (setResults (set_error y m) s)"
  unfolding set_error_def by (rule job_is_setResults_other)

lemma job_is_process_success:
  "y \<noteq> j \<Longrightarrow> job_is j r s \<Longrightarrow> job_is j r (setResults (process_success env y data) s)"
  unfolding process_success_def by (rule job_is_setResults_other)

lemma job_is_parse_success:
  "y \<noteq> j \<Longrightarrow> job_is j r s \<Longrightarrow> job_is j r (setResults (parse_success env y data) s)"
  unfolding parse_success_def by (rule job_is_setResults_other)

lemma normal_iteration_other:
  assumes "y \<noteq> j" and "status r \<noteq> Processing" and "job_is j r s"
    and "normal_iteration env y s = (ctl, s')"
  shows "job_is j r s'"
proof -
  obtain fr s2 where
    f: "fetch_with_signal (Process y) (process_out env y) (setResults (set_status y Processing) s) = (fr, s2)"
    by (cases "fetch_with_signal (Process y) (process_out env y) (setResults (set_status y Processing) s)")
  have b: "job_is j r s2"
    by (rule job_is_fetch_with_signal [OF assms(2) job_is_set_status [OF assms(1,3)] f])
  from assms(4) f show ?thesis
    by (auto simp: normal_iteration_def job_is_process_success [OF assms(1) b]
          job_is_set_error [OF assms(1) b] job_is_set_status [OF assms(1) b]
          split: sum.splits thrown.splits)
qed

lemma parse_call_other:
  assumes "y \<noteq> j" and "status r \<noteq> Processing" and "job_is j r s"
    and "parse_call env y md s = (ctl, s')"
  shows "job_is j r s'"
proof -
  obtain fr s1 where f: "fetch_with_signal (Parse y md) (parse_out env y) s = (fr, s1)"
    by (cases "fetch_with_signal (Parse y md) (parse_out env y) s")
  have b: "job_is j r s1"
    by (rule job_is_fetch_with_signal [OF assms(2,3) f])
  from assms(4) f b show ?thesis
    by (auto simp: parse_call_def job_is_parse_success [OF assms(1)]
          job_is_set_error [OF assms(1)] split: sum.splits thrown.splits)
qed

lemma batch_parse_iteration_other:
  assumes "fst im \<noteq> j" and "status r \<noteq> Processing" and "job_is j r s"
    and "batch_parse_iteration env im s = (ctl, s')"
  shows "job_is j r s'"
proof -
  obtain y md where im: "im = (y, md)" by (cases im)
  with assms(1) have n: "y \<noteq> j" by simp
  from assms(4) have p: "parse_call env y md (setResults (set_status y Processing) s) = (ctl, s')"
    by (simp add: batch_parse_iteration_def im)
  show ?thesis
    by (rule parse_call_other [OF n assms(2) job_is_set_status [OF n assms(3)] p])
qed

lemma batch_extract_iteration_other:
  assumes "y \<noteq> j" and "status r \<noteq> Processing" and "job_is j r (snd ms)"
    and "batch_extract_iteration env y ms = (ctl, ms')"
  shows "job_is j r (snd ms')"
proof -
  obtain mr s where ms: "ms = (mr, s)" by (cases ms)
  obtain fr s2 where
    f: "fetch_with_signal (Extract y) (extract_out env y) (setResults (set_status y Processing) s) = (fr, s2)"
    by (cases "fetch_with_signal (Extract y) (extract_out env y) (setResults (set_status y Processing) s)")
  have b: "job_is j r s2"
    using assms(3) ms
    by (intro job_is_fetch_with_signal [OF assms(2) job_is_set_status [OF assms(1)] f]) simp
  from assms(4) f ms show ?thesis
    by (auto simp: batch_extract_iteration_def job_is_setResults_other [OF assms(1) b]
          job_is_set_error [OF assms(1) b] b split: sum.splits thrown.splits)
qed

lemma lowvram_iteration_other:
  assumes "y \<noteq> j" and "status r \<noteq> Processing" and "job_is j r s"
    and "lowvram_iteration env y s = (ctl, s')"
  shows "job_is j r s'"
proof -
  obtain fr s2 where
    f: "fetch_with_signal (Extract y) (extract_out env y) (setResults (set_status y Processing) s) = (fr, s2)"
    by (cases "fetch_with_signal (Extract y) (extract_out env y) (setResults (set_status y Processing) s)")
  have b: "job_is j r s2"
    by (rule job_is_fetch_with_signal [OF assms(2) job_is_set_status [OF assms(1,3)] f])
  show ?thesis
  proof (cases "fetch_markdown env fr")
    case (Inl t)
    with assms(4) f b show ?thesis
      by (cases t) (auto simp: lowvram_iteration_def job_is_set_error [OF assms(1) b])
  next
    case (Inr md)
    let ?s4 = "fetch_without_signal Unload (unload_out env y)
                 (setResults (at_index y (\<lambda>r. Inr (r\<lparr>rawMarkdown := md\<rparr>))) s2)"
    have b4: "job_is j r ?s4"
      by (intro job_is_fetch_without_signal [OF assms(2)] job_is_setResults_other [OF assms(1) b])
    have p: "parse_call env y md ?s4 = (ctl, s')"
      using assms(4) f Inr by (simp add: lowvram_iteration_def Let_def)
    show ?thesis by (rule parse_call_other [OF assms(1,2) b4 p])
  qed
qed

lemma for_loop_prefix:
  assumes step: "\<And>x a ctl a'. x \<in> set xs \<Longrightarrow> alive a \<Longrightarrow> body x a = (ctl, a') \<Longrightarrow>
                   ctl = Continue \<and> alive a'"
    and excl: "\<And>a. alive a \<Longrightarrow> \<not> stop a"
    and "alive a"
  shows "for_loop body stop (xs @ ys) a = for_loop body stop ys (for_loop body stop xs a) \<and>
         alive (for_loop body stop xs a)"
  using step \<open>alive a\<close>
proof (induction xs arbitrary: a)
  case Nil
  then show ?case by simp
next
  case (Cons x xs)
  obtain ctl a' where b: "body x a = (ctl, a')" by (cases "body x a")
  from Cons.prems(1) [of x a ctl a'] Cons.prems(2) b
  have c: "ctl = Continue" and l: "alive a'" by simp_all
  have ns: "\<not> stop a" using excl Cons.prems(2) by simp
  have step': "c = Continue \<and> alive b'"
    if "y \<in> set xs" "alive b" "body y b = (c, b')" for y b c b'
    using Cons.prems(1) [of y b c b'] that by simp
  have "for_loop body stop (xs @ ys) a' = for_loop body stop ys (for_loop body stop xs a') \<and>
        alive (for_loop body stop xs a')"
    using Cons.IH [of a'] step' l by blast
  with b c ns show ?case by simp
qed

lemma for_loop_job:
  assumes xs: "xs = pre @ j # post" and "j \<notin> set pre" and "j \<notin> set post"
    and flow: "\<And>x a ctl a'. x \<in> set pre \<Longrightarrow> alive a \<Longrightarrow> body x a = (ctl, a') \<Longrightarrow>
                 ctl = Continue \<and> alive a'"
    and excl: "\<And>a. alive a \<Longrightarrow> \<not> stop a"
    and other: "\<And>x a ctl a' r. x \<noteq> j \<Longrightarrow> ok r \<Longrightarrow> J r a \<Longrightarrow> body x a = (ctl, a') \<Longrightarrow> J r a'"
    and own: "\<And>a ctl a'. alive a \<Longrightarrow> J r0 a \<Longrightarrow> body j a = (ctl, a') \<Longrightarrow> J r1 a'"
    and "ok r0" and "ok r1" and "alive a" and "J r0 a"
  shows "J r1 (for_loop body stop xs a)"
proof -
  let ?A = "for_loop body stop pre a"
  have p: "for_loop body stop (pre @ j # post) a = for_loop body stop (j # post) ?A \<and> alive ?A"
    using flow excl \<open>alive a\<close> by (rule for_loop_prefix)
  have jA: "J r0 ?A"
  proof (rule for_loop_invariant [where P = "J r0"])
    show "J r0 a" by fact
  next
    fix x a ctl a'
    assume "x \<in> set pre" "J r0 a" "body x a = (ctl, a')"
    with assms(2) \<open>ok r0\<close> show "J r0 a'" using other [of x r0 a ctl a'] by auto
  qed
  obtain ctl B where b: "body j ?A = (ctl, B)" by (cases "body j ?A")
  from p have lA: "alive ?A" by simp
  then have ns: "\<not> stop ?A" by (rule excl)
  from own [OF lA jA b] have jB: "J r1 B" .
  have "J r1 (for_loop body stop (j # post) ?A)"
  proof (cases ctl)
    case Break
    with b ns jB show ?thesis by simp
  next
    case Continue
    have "J r1 (for_loop body stop post B)"
    proof (rule for_loop_invariant [where P = "J r1"])
      show "J r1 B" by fact
    next
      fix x a ctl a'
      assume "x \<in> set post" "J r1 a" "body x a = (ctl, a')"
      with assms(3) \<open>ok r1\<close> show "J r1 a'" using other [of x r1 a ctl a'] by auto
    qed
    with b ns Continue show ?thesis by simp
  qed
  with p xs show ?thesis by simp
qed

lemma upt_split:
  assumes "j < n"
  shows "[0..<n] = [0..<j] @ j # [Suc j..<n]"
proof -
  have "[0..<n] = [0..<j] @ [j..<n]"
    using assms upt_add_eq_append [of 0 j "n - j"] by simp
  also have "[j..<n] = j # [Suc j..<n]"
    using assms by (rule upt_conv_Cons)
  finally show ?thesis .
qed

section \<open>The job whose stage fails\<close>

lemma fetch_with_signal_render_error:
  "fetch_with_signal c out s = (fr, s') \<Longrightarrow> render_error s' = render_error s"
  by (auto simp: fetch_with_signal_def Let_def split: option.splits bool.splits if_splits)

lemma normal_iteration_unmounted:
  assumes "render_error s = Some m" and "normal_iteration env y s = (ctl, s')"
  shows "render_error s' = Some m"
proof -
  obtain fr s2 where
    f: "fetch_with_signal (Process y) (process_out env y) (setResults (set_status y Processing) s) = (fr, s2)"
    by (cases "fetch_with_signal (Process y) (process_out env y) (setResults (set_status y Processing) s)")
  from fetch_with_signal_render_error [OF f] assms(1) have m2: "render_error s2 = Some m" by simp
  from assms(2) f have "s' = s2 \<or> (\<exists>u. s' = setResults u s2)"
    by (auto simp: normal_iteration_def split: sum.splits thrown.splits)
  with m2 show ?thesis by (auto simp: setResults_unmounted)
qed

lemma batch_extract_iteration_unmounted:
  assumes "render_error s = Some m" and "batch_extract_iteration env y (mr, s) = (ctl, mr', s')"
  shows "render_error s' = Some m"
proof -
  obtain fr s2 where
    f: "fetch_with_signal (Extract y) (extract_out env y) (setResults (set_status y Processing) s) = (fr, s2)"
    by (cases "fetch_with_signal (Extract y) (extract_out env y) (setResults (set_status y Processing) s)")
  from fetch_with_signal_render_error [OF f] assms(1) have m2: "render_error s2 = Some m" by simp
  from assms(2) f have "s' = s2 \<or> (\<exists>u. s' = setResults u s2)"
    by (auto simp: batch_extract_iteration_def split: sum.splits thrown.splits)
  with m2 show ?thesis by (auto simp: setResults_unmounted)
qed

lemma job_is_resolved:
  assumes "render_error s = None" and "j < length (results s)"
  shows "job_is j (h (results s ! j)) (resolved cs j h s)"
  using assms by (simp add: job_is_def resolved_def)

lemma normal_iteration_failed_own:
  assumes "live s" and "job_is j r s"
    and "process_out env j = Outcome False (Response False b)"
    and "normal_iteration env j s = (ctl, s')"
  shows "job_is j (failed_with (failure_message env b ''Processing failed'') r) s'"
proof (cases "render_error s")
  case None
  with assms(2) have l: "j < length (results s)" and r: "results s ! j = r"
    by (simp_all add: job_is_def)
  from normal_iteration_failed [OF assms(1) None l assms(3)] assms(4)
  have "s' = resolved [Process j] j (failed_with (failure_message env b ''Processing failed'')) s"
    by simp
  with job_is_resolved [OF None l] r show ?thesis by simp
next
  case (Some m)
  from normal_iteration_unmounted [OF Some assms(4)] show ?thesis
    by (rule job_is_unmounted)
qed

lemma batch_extract_iteration_failed_own:
  assumes "live (snd ms)" and "job_is j r (snd ms)"
    and "extract_out env j = Outcome False (Response False b)"
    and "batch_extract_iteration env j ms = (ctl, ms')"
  shows "job_is j (failed_with (failure_message env b ''OCR failed'') r) (snd ms')"
proof -
  obtain mr s where ms: "ms = (mr, s)" by (cases ms)
  obtain mr' s' where ms': "ms' = (mr', s')" by (cases ms')
  show ?thesis
  proof (cases "render_error s")
    case None
    with assms(2) ms have l: "j < length (results s)" and r: "results s ! j = r"
      by (simp_all add: job_is_def)
    from assms(1) ms have lv: "live s" by simp
    from batch_extract_iteration_failed [OF lv None l assms(3)] assms(4) ms ms'
    have "s' = resolved [Extract j] j (failed_with (failure_message env b ''OCR failed'')) s"
      by simp
    with job_is_resolved [OF None l] r ms' show ?thesis by simp
  next
    case (Some m)
    from assms(4) ms ms' have "batch_extract_iteration env j (mr, s) = (ctl, mr', s')" by simp
    from batch_extract_iteration_unmounted [OF Some this] ms' show ?thesis
      by (simp add: job_is_unmounted)
  qed
qed

lemma lowvram_iteration_failed_own:
  assumes "live s" and "job_is j r s"
    and "extract_out env j = Outcome False (Response False b)"
    and "lowvram_iteration env j s = (ctl, s')"
  shows "job_is j (failed_with (failure_message env b ''OCR failed'') r) s'"
proof (cases "render_error s")
  case None
  with assms(2) have l: "j < length (results s)" and r: "results s ! j = r"
    by (simp_all add: job_is_def)
  from lowvram_iteration_failed [OF assms(1) None l assms(3)] assms(4)
  have "s' = resolved [Extract j] j (failed_with (failure_message env b ''OCR failed'')) s"
    by simp
  with job_is_resolved [OF None l] r show ?thesis by simp
next
  case (Some m)
  let ?s2 = "log_call (Extract j) (setResults (set_status j Processing) s)"
  have f: "fetch_with_signal (Extract j) (extract_out env j) (setResults (set_status j Processing) s) =
        (Inr (False, b), ?s2)"
    using assms(1,3) by (simp add: fetch_with_signal_live)
  have m2: "render_error ?s2 = Some m" using Some by simp
  have "s' = setResults (set_error j (failure_message env b ''OCR failed'')) ?s2"
    using assms(4) by (simp add: lowvram_iteration_def f fetch_markdown_failed)
  then have "render_error s' = Some m"
    using m2 by simp
  then show ?thesis by (rule job_is_unmounted)
qed

lemma job_is_start_setup:
  "j < length files \<Longrightarrow> job_is j (initialResults files (next_url s) ! j) (start_setup files s)"
  by (cases "render_error s")
     (simp_all add: job_is_def start_setup_def Let_def setResults_def length_initialResults)

lemma status_initialResults:
  "j < length files \<Longrightarrow> status (initialResults files n ! j) = Pending"
  by (simp add: initialResults_nth)

lemma job_is_finished [simp]:
  "job_is j r (s\<lparr>isProcessing := False, abortController := None\<rparr>) = job_is j r s"
  by (cases "render_error s") (simp_all add: job_is_def)

lemma performance_job:
  assumes "j < length files" and "\<forall>k<j. \<not> stop_during (process_out env k)"
    and own: "\<And>a ctl a'. live a \<Longrightarrow> job_is j (initialResults files (next_url s) ! j) a \<Longrightarrow>
                normal_iteration env j a = (ctl, a') \<Longrightarrow> job_is j r1 a'"
    and "status r1 \<noteq> Processing"
  shows "job_is j r1 (handleStart files Performance env s)"
proof -
  let ?r0 = "initialResults files (next_url s) ! j"
  have "job_is j r1
          (for_loop (normal_iteration env) aborted [0..<length files] (start_setup files s))"
  proof (rule for_loop_job [where alive = live and ok = "\<lambda>r. status r \<noteq> Processing"
        and ?r0.0 = ?r0 and pre = "[0..<j]" and post = "[Suc j..<length files]"])
    show "[0..<length files] = [0..<j] @ j # [Suc j..<length files]"
      using assms(1) by (rule upt_split)
  next
    fix x a ctl a'
    assume "x \<in> set [0..<j]" "live a" "normal_iteration env x a = (ctl, a')"
    with assms(2) normal_iteration_flow [of a env x ctl a']
    show "ctl = Continue \<and> live a'" by simp
  next
    fix x a ctl a' r
    assume "x \<noteq> j" "status r \<noteq> Processing" "job_is j r a" "normal_iteration env x a = (ctl, a')"
    then show "job_is j r a'" by (rule normal_iteration_other)
  next
    fix a ctl a'
    assume "live a" "job_is j ?r0 a" "normal_iteration env j a = (ctl, a')"
    then show "job_is j r1 a'" by (rule own)
  next
    show "job_is j ?r0 (start_setup files s)" using assms(1) by (rule job_is_start_setup)
  qed (simp_all add: live_not_aborted status_initialResults [OF assms(1)] assms(4))
  then show ?thesis
    by (simp add: handleStart_def handleNormalProcessing_def)
qed

lemma lowvram_job:
  assumes "j < length files" and "\<forall>k<j. \<not> lowvram_stopped env k"
    and own: "\<And>a ctl a'. live a \<Longrightarrow> job_is j (initialResults files (next_url s) ! j) a \<Longrightarrow>
                lowvram_iteration env j a = (ctl, a') \<Longrightarrow> job_is j r1 a'"
    and "status r1 \<noteq> Processing"
  shows "job_is j r1 (handleStart files LowVram env s)"
proof -
  let ?r0 = "initialResults files (next_url s) ! j"
  have "job_is j r1
          (for_loop (lowvram_iteration env) aborted [0..<length files] (start_setup files s))"
  proof (rule for_loop_job [where alive = live and ok = "\<lambda>r. status r \<noteq> Processing"
        and ?r0.0 = ?r0 and pre = "[0..<j]" and post = "[Suc j..<length files]"])
    show "[0..<length files] = [0..<j] @ j # [Suc j..<length files]"
      using assms(1) by (rule upt_split)
  next
    fix x a ctl a'
    assume "x \<in> set [0..<j]" "live a" "lowvram_iteration env x a = (ctl, a')"
    with assms(2) lowvram_iteration_flow [of a env x ctl a']
    show "ctl = Continue \<and> live a'" by simp
  next
    fix x a ctl a' r
    assume "x \<noteq> j" "status r \<noteq> Processing" "job_is j r a" "lowvram_iteration env x a = (ctl, a')"
    then show "job_is j r a'" by (rule lowvram_iteration_other)
  next
    fix a ctl a'
    assume "live a" "job_is j ?r0 a" "lowvram_iteration env j a = (ctl, a')"
    then show "job_is j r1 a'" by (rule own)
  next
    show "job_is j ?r0 (start_setup files s)" using assms(1) by (rule job_is_start_setup)
  qed (simp_all add: live_not_aborted status_initialResults [OF assms(1)] assms(4))
  then show ?thesis
    by (simp add: handleStart_def handleLowVramProcessing_def)
qed

lemma extracted_index: "x \<in> set (extracted env i) \<Longrightarrow> fst x = i"
  by (auto simp: extracted_def split: option.splits)

lemma batch_job:
  assumes "j < length files" and "\<forall>k<j. \<not> stop_during (extract_out env k)"
    and own: "\<And>a ctl a'. live (snd a) \<Longrightarrow>
                job_is j (initialResults files (next_url s) ! j) (snd a) \<Longrightarrow>
                batch_extract_iteration env j a = (ctl, a') \<Longrightarrow> job_is j r1 (snd a')"
    and ok1: "status r1 \<noteq> Processing"
    and none: "extracted env j = []"
  shows "job_is j r1 (handleStart files Batch env s)"
proof -
  let ?r0 = "initialResults files (next_url s) ! j"
  let ?s1 = "start_setup files s"
  have p1: "job_is j r1 (snd (batch_phase1 files env ?s1))"
    unfolding batch_phase1_def
  proof (rule for_loop_job [where alive = "\<lambda>ms. live (snd ms)" and ok = "\<lambda>r. status r \<noteq> Processing"
        and ?r0.0 = ?r0 and pre = "[0..<j]" and post = "[Suc j..<length files]"
        and J = "\<lambda>r ms. job_is j r (snd ms)"])
    show "[0..<length files] = [0..<j] @ j # [Suc j..<length files]"
      using assms(1) by (rule upt_split)
  next
    fix x and a :: "markdown_results \<times> app_state" and ctl a'
    assume "x \<in> set [0..<j]" "live (snd a)" "batch_extract_iteration env x a = (ctl, a')"
    with assms(2) batch_extract_iteration_step [of a env x ctl a']
    show "ctl = Continue \<and> live (snd a')" by simp
  next
    fix x and a :: "markdown_results \<times> app_state" and ctl a' r
    assume "x \<noteq> j" "status r \<noteq> Processing" "job_is j r (snd a)"
      "batch_extract_iteration env x a = (ctl, a')"
    then show "job_is j r (snd a')" by (rule batch_extract_iteration_other)
  next
    fix a :: "markdown_results \<times> app_state" and ctl a'
    assume "live (snd a)" "job_is j ?r0 (snd a)" "batch_extract_iteration env j a = (ctl, a')"
    then show "job_is j r1 (snd a')" by (rule own)
  next
    show "job_is j ?r0 (snd (([], ?s1) :: markdown_results \<times> app_state))"
      using assms(1) by (simp add: job_is_start_setup)
  qed (simp_all add: live_not_aborted status_initialResults [OF assms(1)] ok1)
  obtain mr t where pt: "batch_phase1 files env ?s1 = (mr, t)"
    by (cases "batch_phase1 files env ?s1")
  with p1 have jt: "job_is j r1 t" by simp
  have lv: "live ?s1" by simp
  from batch_phase1_trace [OF lv, of files env] pt
  have mr: "mr = concat (map (extracted env)
              (until_first (\<lambda>i. stop_during (extract_out env i)) [0..<length files]))"
    by simp
  have nj: "fst x \<noteq> j" if "x \<in> set mr" for x
  proof -
    from that mr obtain i where i: "x \<in> set (extracted env i)" by auto
    then have "fst x = i" by (rule extracted_index)
    moreover have "i \<noteq> j" using i none by auto
    ultimately show ?thesis by simp
  qed
  have "job_is j r1 (handleBatchProcessing files env ?s1)"
  proof (cases "aborted t")
    case True
    with pt jt show ?thesis by (simp add: handleBatchProcessing_def)
  next
    case False
    have "job_is j r1 (for_loop (batch_parse_iteration env) aborted mr
            (fetch_without_signal Unload (batch_unload_out env) t))"
    proof (rule for_loop_invariant [where P = "job_is j r1"])
      show "job_is j r1 (fetch_without_signal Unload (batch_unload_out env) t)"
        using ok1 jt by (rule job_is_fetch_without_signal)
    next
      fix x a ctl a'
      assume "x \<in> set mr" "job_is j r1 a" "batch_parse_iteration env x a = (ctl, a')"
      then show "job_is j r1 a'"
        using nj ok1 batch_parse_iteration_other by blast
    qed
    with pt False show ?thesis by (simp add: handleBatchProcessing_def)
  qed
  then show ?thesis by (simp add: handleStart_def)
qed

lemma performance_failed_job:
  assumes "j < length files" and "\<forall>k<j. \<not> stop_during (process_out env k)"
    and "process_out env j = Outcome False (Response False b)"
  shows "job_is j (failed_with (failure_message env b ''Processing failed'')
                     (initialResults files (next_url s) ! j))
           (handleStart files Performance env s)"
  using assms(3)
  by (intro performance_job [OF assms(1,2)] normal_iteration_failed_own)
     (simp_all add: failed_with_def)

lemma lowvram_failed_job:
  assumes "j < length files" and "\<forall>k<j. \<not> lowvram_stopped env k"
    and "extract_out env j = Outcome False (Response False b)"
  shows "job_is j (failed_with (failure_message env b ''OCR failed'')
                     (initialResults files (next_url s) ! j))
           (handleStart files LowVram env s)"
  using assms(3)
  by (intro lowvram_job [OF assms(1,2)] lowvram_iteration_failed_own)
     (simp_all add: failed_with_def)

lemma batch_failed_job:
  assumes "j < length files" and "\<forall>k<j. \<not> stop_during (extract_out env k)"
    and "extract_out env j = Outcome False (Response False b)"
  shows "job_is j (failed_with (failure_message env b ''OCR failed'')
                     (initialResults files (next_url s) ! j))
           (handleStart files Batch env s)"
  using assms(3)
  by (intro batch_job [OF assms(1,2)] batch_extract_iteration_failed_own)
     (simp_all add: failed_with_def extracted_failed)

section \<open>The job during whose first call the run is stopped\<close>

lemma job_is_stopped:
  assumes "job_is j r s" and "status r = Pending"
  shows "job_is j r (handleStop (call_pending c j s))"
proof (cases "render_error s")
  case (Some m)
  then show ?thesis by (simp add: job_is_def)
next
  case None
  with assms(1) have l: "j < length (results s)" and r: "results s ! j = r"
    by (simp_all add: job_is_def)
  have "(r\<lparr>status := Pending\<rparr>) = r" using assms(2)
    by (metis ResultItem.surjective ResultItem.update_convs(2))
  with None l r show ?thesis
    by (simp add: job_is_def results_handleStop results_call_pending)
qed

lemma performance_stopped_job:
  assumes "j < length files" and "\<forall>k<j. \<not> stop_during (process_out env k)"
    and "stop_during (process_out env j)"
  shows "job_is j (initialResults files (next_url s) ! j) (handleStart files Performance env s)"
proof (rule performance_job [OF assms(1,2)])
  fix a ctl a'
  assume "live a" and j: "job_is j (initialResults files (next_url s) ! j) a"
    and "normal_iteration env j a = (ctl, a')"
  with normal_iteration_stopped [OF \<open>live a\<close> assms(3)]
  have "a' = handleStop (call_pending (Process j) j a)" by simp
  with job_is_stopped [OF j] assms(1)
  show "job_is j (initialResults files (next_url s) ! j) a'"
    by (simp add: status_initialResults)
qed (simp add: status_initialResults [OF assms(1)])

lemma lowvram_stopped_job:
  assumes "j < length files" and "\<forall>k<j. \<not> lowvram_stopped env k"
    and "stop_during (extract_out env j)"
  shows "job_is j (initialResults files (next_url s) ! j) (handleStart files LowVram env s)"
proof (rule lowvram_job [OF assms(1,2)])
  fix a ctl a'
  assume "live a" and j: "job_is j (initialResults files (next_url s) ! j) a"
    and "lowvram_iteration env j a = (ctl, a')"
  with lowvram_iteration_stopped [OF \<open>live a\<close> assms(3)]
  have "a' = handleStop (call_pending (Extract j) j a)" by simp
  with job_is_stopped [OF j] assms(1)
  show "job_is j (initialResults files (next_url s) ! j) a'"
    by (simp add: status_initialResults)
qed (simp add: status_initialResults [OF assms(1)])

lemma batch_stopped_job:
  assumes "j < length files" and "\<forall>k<j. \<not> stop_during (extract_out env k)"
    and "stop_during (extract_out env j)"
  shows "job_is j (initialResults files (next_url s) ! j) (handleStart files Batch env s)"
proof (rule batch_job [OF assms(1,2)])
  fix a :: "markdown_results \<times> app_state" and ctl a'
  assume l: "live (snd a)" and j: "job_is j (initialResults files (next_url s) ! j) (snd a)"
    and "batch_extract_iteration env j a = (ctl, a')"
  with batch_extract_iteration_stopped [OF l assms(3), of "fst a"]
  have "snd a' = handleStop (call_pending (Extract j) j (snd a))" by auto
  with job_is_stopped [OF j] assms(1)
  show "job_is j (initialResults files (next_url s) ! j) (snd a')"
    by (simp add: status_initialResults)
next
  show "extracted env j = []" using assms(3) by (simp add: extracted_def extract_markdown_def)
qed (simp add: status_initialResults [OF assms(1)])

section \<open>A parse that fails after a successful extract\<close>

lemma parse_call_failed:
  assumes "live s" and "render_error s = None" and "i < length (results s)"
    and "parse_out env i = Outcome False (Response False b)"
  shows "parse_call env i md s =
           (Continue, resolved [Parse i md] i (failed_with (failure_message env b ''Parse failed'')) s)"
  using assms
  by (simp add: parse_call_def fetch_with_signal_live fetch_json_failed
        setResults_set_error resolved_def failed_with_def log_call_def)

lemma extract_markdown_not_stopped:
  "extract_markdown env i = Some md \<Longrightarrow> \<not> stop_during (extract_out env i)"
  by (simp add: extract_markdown_def split: if_splits)

lemma extract_stored_resolved:
  assumes "render_error s = None" and "i < length (results s)"
  shows "extract_stored i md s =
           resolved [Extract i] i (\<lambda>r. r\<lparr>status := Processing, rawMarkdown := md\<rparr>) s"
  using assms
  by (simp add: extract_stored_def call_pending_def setResults_set_status log_call_def
        setResults_at_index [where h = "\<lambda>r. r\<lparr>rawMarkdown := md\<rparr>"] resolved_def)

lemma lowvram_iteration_parse_failed:
  assumes "live s" and "render_error s = None" and "i < length (results s)"
    and "extract_markdown env i = Some md"
    and "\<not> stop_during (unload_out env i)"
    and "parse_out env i = Outcome False (Response False b)"
  shows "lowvram_iteration env i s =
           (Continue,
            resolved [Extract i, Unload, Parse i md] i
              (\<lambda>r. failed_with (failure_message env b ''Parse failed'') (r\<lparr>rawMarkdown := md\<rparr>)) s)"
proof -
  let ?s3 = "extract_stored i md s"
  let ?s4 = "log_call Unload ?s3"
  have ns: "\<not> stop_during (extract_out env i)"
    using assms(4) by (rule extract_markdown_not_stopped)
  have it: "lowvram_iteration env i s = parse_call env i md ?s4"
    using assms(5)
    by (simp add: lowvram_iteration_extracted [OF assms(1) ns assms(4)] fetch_without_signal_def Let_def)
  have l4: "live ?s4" using assms(1) by simp
  have m3: "render_error ?s3 = None" using assms(2) by simp
  then have m4: "render_error ?s4 = None" by simp
  have r4: "results ?s4 = (results s)[i := (results s ! i)\<lparr>status := Processing, rawMarkdown := md\<rparr>]"
    using assms(2) by (simp add: results_extract_stored)
  then have i4: "i < length (results ?s4)" using assms(3) by simp
  have c4: "calls ?s4 = calls s @ [Extract i, Unload]"
    by (simp add: extract_stored_def call_pending_def log_call_def)
  have "parse_call env i md ?s4 =
          (Continue, resolved [Parse i md] i (failed_with (failure_message env b ''Parse failed'')) ?s4)"
    using l4 m4 i4 assms(6) by (rule parse_call_failed)
  also have "resolved [Parse i md] i (failed_with (failure_message env b ''Parse failed'')) ?s4 =
       resolved [Extract i, Unload, Parse i md] i
              (\<lambda>r. failed_with (failure_message env b ''Parse failed'') (r\<lparr>rawMarkdown := md\<rparr>)) s"
    using assms(2,3)
    by (simp add: extract_stored_resolved resolved_def log_call_def failed_with_def)
  finally show ?thesis using it by simp
qed

lemma lowvram_iteration_parse_failed_own:
  assumes "live s" and "job_is j r s"
    and "extract_markdown env j = Some md"
    and "\<not> stop_during (unload_out env j)"
    and "parse_out env j = Outcome False (Response False b)"
    and "lowvram_iteration env j s = (ctl, s')"
  shows "job_is j (failed_with (failure_message env b ''Parse failed'') (r\<lparr>rawMarkdown := md\<rparr>)) s'"
proof (cases "render_error s")
  case None
  with assms(2) have l: "j < length (results s)" and r: "results s ! j = r"
    by (simp_all add: job_is_def)
  from lowvram_iteration_parse_failed [OF assms(1) None l assms(3,4,5)] assms(6)
  have "s' = resolved [Extract j, Unload, Parse j md] j
          (\<lambda>r. failed_with (failure_message env b ''Parse failed'') (r\<lparr>rawMarkdown := md\<rparr>)) s"
    by simp
  with job_is_resolved [OF None l,
      where h = "\<lambda>r. failed_with (failure_message env b ''Parse failed'') (r\<lparr>rawMarkdown := md\<rparr>)"] r
  show ?thesis by simp
next
  case (Some m)
  let ?s4 = "log_call Unload (extract_stored j md s)"
  have ns: "\<not> stop_during (extract_out env j)"
    using assms(3) by (rule extract_markdown_not_stopped)
  have it: "lowvram_iteration env j s = parse_call env j md ?s4"
    using assms(4)
    by (simp add: lowvram_iteration_extracted [OF assms(1) ns assms(3)] fetch_without_signal_def Let_def)
  have m4: "render_error ?s4 = Some m" using Some by simp
  have l4: "live ?s4" using assms(1) by simp
  have "s' = setResults (set_error j (failure_message env b ''Parse failed'')) (log_call (Parse j md) ?s4)"
    using assms(5,6) l4 unfolding it
    by (simp add: parse_call_def fetch_with_signal_live fetch_json_failed)
  then have "render_error s' = Some m"
    using m4 by simp
  then show ?thesis by (rule job_is_unmounted)
qed

lemma lowvram_failed_parse_job:
  assumes "j < length files" and "\<forall>k<j. \<not> lowvram_stopped env k"
    and "extract_markdown env j = Some md"
    and "\<not> stop_during (unload_out env j)"
    and "parse_out env j = Outcome False (Response False b)"
  shows "job_is j (failed_with (failure_message env b ''Parse failed'')
                     ((initialResults files (next_url s) ! j)\<lparr>rawMarkdown := md\<rparr>))
           (handleStart files LowVram env s)"
  using assms(3,4,5)
  by (intro lowvram_job [OF assms(1,2)] lowvram_iteration_parse_failed_own)
     (simp_all add: failed_with_def)

lemma for_loop_job_mem:
  assumes xs: "xs = pre @ j # post"
    and flow: "\<And>x a ctl a'. x \<in> set pre \<Longrightarrow> alive a \<Longrightarrow> body x a = (ctl, a') \<Longrightarrow>
                 ctl = Continue \<and> alive a'"
    and excl: "\<And>a. alive a \<Longrightarrow> \<not> stop a"
    and other: "\<And>x a ctl a' r. x \<in> set pre \<union> set post \<Longrightarrow> ok r \<Longrightarrow> J r a \<Longrightarrow>
                  body x a = (ctl, a') \<Longrightarrow> J r a'"
    and own: "\<And>a ctl a'. alive a \<Longrightarrow> J r0 a \<Longrightarrow> body j a = (ctl, a') \<Longrightarrow> J r1 a'"
    and "ok r0" and "ok r1" and "alive a" and "J r0 a"
  shows "J r1 (for_loop body stop xs a)"
proof -
  let ?A = "for_loop body stop pre a"
  have p: "for_loop body stop (pre @ j # post) a = for_loop body stop (j # post) ?A \<and> alive ?A"
    using flow excl \<open>alive a\<close> by (rule for_loop_prefix)
  have jA: "J r0 ?A"
  proof (rule for_loop_invariant [where P = "J r0"])
    show "J r0 a" by fact
  next
    fix x a ctl a'
    assume "x \<in> set pre" "J r0 a" "body x a = (ctl, a')"
    with \<open>ok r0\<close> show "J r0 a'" using other [of x r0 a ctl a'] by auto
  qed
  obtain ctl B where b: "body j ?A = (ctl, B)" by (cases "body j ?A")
  from p have lA: "alive ?A" by simp
  then have ns: "\<not> stop ?A" by (rule excl)
  from own [OF lA jA b] have jB: "J r1 B" .
  have "J r1 (for_loop body stop (j # post) ?A)"
  proof (cases ctl)
    case Break
    with b ns jB show ?thesis by simp
  next
    case Continue
    have "J r1 (for_loop body stop post B)"
    proof (rule for_loop_invariant [where P = "J r1"])
      show "J r1 B" by fact
    next
      fix x a ctl a'
      assume "x \<in> set post" "J r1 a" "body x a = (ctl, a')"
      with \<open>ok r1\<close> show "J r1 a'" using other [of x r1 a ctl a'] by auto
    qed
    with b ns Continue show ?thesis by simp
  qed
  with p xs show ?thesis by simp
qed

lemma batch_extract_iteration_extracted:
  assumes "live s" and "extract_markdown env i = Some md"
  shows "batch_extract_iteration env i (mr, s) =
           (Continue, mr @ [(i, md)],
            setResults (at_index i (\<lambda>r. Inr (r\<lparr>rawMarkdown := md, status := Pending\<rparr>)))
              (call_pending (Extract i) i s))"
proof -
  have ns: "\<not> stop_during (extract_out env i)"
    using assms(2) by (rule extract_markdown_not_stopped)
  have f: "fetch_with_signal (Extract i) (extract_out env i) (setResults (set_status i Processing) s) =
          (settled (answer (extract_out env i)), call_pending (Extract i) i s)"
    using assms(1) ns by (simp add: fetch_with_signal_live call_pending_def)
  have m: "fetch_markdown env (settled (answer (extract_out env i))) = Inr md"
    using ns assms(2) by (simp add: extract_markdown_def split: sum.splits)
  show ?thesis
    by (simp add: batch_extract_iteration_def f m)
qed

lemma batch_extract_iteration_extracted_own:
  assumes "live (snd a)" and "job_is j r (snd a)"
    and "extract_markdown env j = Some md"
    and "batch_extract_iteration env j a = (ctl, a')"
  shows "job_is j (extracted_with md r) (snd a')"
proof -
  obtain mr s where a: "a = (mr, s)" by (cases a)
  let ?s2 = "call_pending (Extract j) j s"
  from assms(1,4) a batch_extract_iteration_extracted [OF _ assms(3), of s mr]
  have s': "snd a' = setResults (at_index j (\<lambda>r. Inr (r\<lparr>rawMarkdown := md, status := Pending\<rparr>))) ?s2"
    by auto
  show ?thesis
  proof (cases "render_error s")
    case None
    with assms(2) a have l: "j < length (results s)" and r: "results s ! j = r"
      by (simp_all add: job_is_def)
    have m2: "render_error ?s2 = None" using None by simp
    have r2: "results ?s2 = (results s)[j := (results s ! j)\<lparr>status := Processing\<rparr>]"
      using None by (simp add: results_call_pending)
    show ?thesis
      unfolding s' using m2 r2 l r
      by (simp add: job_is_def extracted_with_def
            setResults_at_index [where h = "\<lambda>r. r\<lparr>rawMarkdown := md, status := Pending\<rparr>"]
            render_error_at_index [where h = "\<lambda>r. r\<lparr>rawMarkdown := md, status := Pending\<rparr>"])
  next
    case (Some m)
    then have "render_error ?s2 = Some m" by simp
    then have "render_error (snd a') = Some m"
      unfolding s' by (simp add: setResults_unmounted)
    then show ?thesis by (rule job_is_unmounted)
  qed
qed

lemma batch_parse_iteration_failed_own:
  assumes "live s" and "job_is j r s"
    and "parse_out env j = Outcome False (Response False b)"
    and "batch_parse_iteration env (j, md) s = (ctl, s')"
  shows "job_is j (failed_with (failure_message env b ''Parse failed'') r) s'"
proof (cases "render_error s")
  case None
  with assms(2) have l: "j < length (results s)" and r: "results s ! j = r"
    by (simp_all add: job_is_def)
  from batch_parse_iteration_failed [OF assms(1) None l assms(3)] assms(4)
  have "s' = resolved [Parse j md] j (failed_with (failure_message env b ''Parse failed'')) s"
    by simp
  with job_is_resolved [OF None l] r show ?thesis by simp
next
  case (Some m)
  let ?s2 = "log_call (Parse j md) (setResults (set_status j Processing) s)"
  have m2: "render_error ?s2 = Some m" using Some by simp
  have "s' = setResults (set_error j (failure_message env b ''Parse failed'')) ?s2"
    using assms(1,3,4)
    by (simp add: batch_parse_iteration_def parse_call_def fetch_with_signal_live fetch_json_failed)
  then have "render_error s' = Some m"
    using m2 by simp
  then show ?thesis by (rule job_is_unmounted)
qed

lemma batch_failed_parse_job:
  assumes "j < length files"
    and e: "\<forall>k<length files. \<not> stop_during (extract_out env k)"
    and u: "\<not> stop_during (batch_unload_out env)"
    and p: "\<forall>k<j. \<not> stop_during (parse_out env k)"
    and md: "extract_markdown env j = Some md"
    and f: "parse_out env j = Outcome False (Response False b)"
  shows "job_is j (failed_with (failure_message env b ''Parse failed'')
                     ((initialResults files (next_url s) ! j)\<lparr>rawMarkdown := md\<rparr>))
           (handleStart files Batch env s)"
proof -
  let ?r0 = "initialResults files (next_url s) ! j"
  let ?r1 = "extracted_with md ?r0"
  let ?r2 = "failed_with (failure_message env b ''Parse failed'') ?r1"
  let ?s1 = "start_setup files s"
  have ok1: "status ?r1 \<noteq> Processing" by (simp add: extracted_with_def)
  have ok2: "status ?r2 \<noteq> Processing" by (simp add: failed_with_def)
  have p1: "job_is j ?r1 (snd (batch_phase1 files env ?s1))"
    unfolding batch_phase1_def
  proof (rule for_loop_job [where alive = "\<lambda>ms. live (snd ms)" and ok = "\<lambda>r. status r \<noteq> Processing"
        and ?r0.0 = ?r0 and pre = "[0..<j]" and post = "[Suc j..<length files]"
        and J = "\<lambda>r ms. job_is j r (snd ms)"])
    show "[0..<length files] = [0..<j] @ j # [Suc j..<length files]"
      using assms(1) by (rule upt_split)
  next
    fix x and a :: "markdown_results \<times> app_state" and ctl a'
    assume "x \<in> set [0..<j]" "live (snd a)" "batch_extract_iteration env x a = (ctl, a')"
    with e assms(1) batch_extract_iteration_step [of a env x ctl a']
    show "ctl = Continue \<and> live (snd a')" by simp
  next
    fix x and a :: "markdown_results \<times> app_state" and ctl a' r
    assume "x \<noteq> j" "status r \<noteq> Processing" "job_is j r (snd a)"
      "batch_extract_iteration env x a = (ctl, a')"
    then show "job_is j r (snd a')" by (rule batch_extract_iteration_other)
  next
    fix a :: "markdown_results \<times> app_state" and ctl a'
    assume "live (snd a)" "job_is j ?r0 (snd a)" "batch_extract_iteration env j a = (ctl, a')"
    then show "job_is j ?r1 (snd a')"
      using md batch_extract_iteration_extracted_own by blast
  next
    show "job_is j ?r0 (snd (([], ?s1) :: markdown_results \<times> app_state))"
      using assms(1) by (simp add: job_is_start_setup)
  qed (simp_all add: live_not_aborted status_initialResults [OF assms(1)] ok1)
  obtain mr t where pt: "batch_phase1 files env ?s1 = (mr, t)"
    by (cases "batch_phase1 files env ?s1")
  with p1 have jt: "job_is j ?r1 t" by simp
  have lv: "live ?s1" by simp
  have uf: "until_first (\<lambda>i. stop_during (extract_out env i)) [0..<length files] = [0..<length files]"
    using e by (intro until_first_none) (simp add: list_ex_iff)
  have nc: "\<not> phase1_cancelled files env"
    using e by (simp add: phase1_cancelled_def list_ex_iff)
  from batch_phase1_trace [OF lv, of files env] pt uf nc
  have mr: "mr = concat (map (extracted env) [0..<length files])" and lt: "live t"
    by simp_all
  let ?pre = "concat (map (extracted env) [0..<j])"
  let ?post = "concat (map (extracted env) [Suc j..<length files])"
  have split: "mr = ?pre @ (j, md) # ?post"
    unfolding mr using md by (subst upt_split [OF assms(1)]) (simp add: extracted_def)
  have lo: "fst x < j" if "x \<in> set ?pre" for x
  proof -
    from that obtain i where "i < j" and "x \<in> set (extracted env i)" by auto
    then show ?thesis using extracted_index [of x env i] by simp
  qed
  have hi: "j < fst x" if "x \<in> set ?post" for x
  proof -
    from that obtain i where "Suc j \<le> i" and "x \<in> set (extracted env i)" by auto
    then show ?thesis using extracted_index [of x env i] by simp
  qed
  let ?s2 = "fetch_without_signal Unload (batch_unload_out env) t"
  have l2: "live ?s2" using u lt by (simp add: fetch_without_signal_def Let_def)
  have j2: "job_is j ?r1 ?s2" using ok1 jt by (rule job_is_fetch_without_signal)
  have "job_is j ?r2 (for_loop (batch_parse_iteration env) aborted mr ?s2)"
  proof (rule for_loop_job_mem [where alive = live and ok = "\<lambda>r. status r \<noteq> Processing"
        and ?r0.0 = ?r1 and pre = ?pre and post = ?post and j = "(j, md)" and J = "job_is j"])
    show "mr = ?pre @ (j, md) # ?post" by (rule split)
  next
    fix x a ctl a'
    assume x: "x \<in> set ?pre" and "live a" "batch_parse_iteration env x a = (ctl, a')"
    with p lo [OF x] batch_parse_iteration_flow [of a env x ctl a']
    show "ctl = Continue \<and> live a'" by simp
  next
    fix x a ctl a' r
    assume x: "x \<in> set ?pre \<union> set ?post" and "status r \<noteq> Processing" "job_is j r a"
      "batch_parse_iteration env x a = (ctl, a')"
    moreover have "fst x \<noteq> j"
    proof (cases "x \<in> set ?pre")
      case True
      from lo [OF True] show ?thesis by simp
    next
      case False
      with x have "x \<in> set ?post" by simp
      from hi [OF this] show ?thesis by simp
    qed
    ultimately show "job_is j r a'" using batch_parse_iteration_other by blast
  next
    fix a ctl a'
    assume "live a" "job_is j ?r1 a" "batch_parse_iteration env (j, md) a = (ctl, a')"
    then show "job_is j ?r2 a'"
      using f batch_parse_iteration_failed_own by blast
  qed (simp_all add: live_not_aborted ok1 ok2 l2 j2)
  moreover have "\<not> aborted t" using lt by (rule live_not_aborted)
  ultimately have "job_is j ?r2 (handleBatchProcessing files env ?s1)"
    using pt by (simp add: handleBatchProcessing_def)
  moreover have "?r2 = failed_with (failure_message env b ''Parse failed'') (?r0\<lparr>rawMarkdown := md\<rparr>)"
    by (simp add: failed_with_def extracted_with_def)
  ultimately show ?thesis by (simp add: handleStart_def)
qed

lemma failure_message_string:
  "map_of (rev kvs) ''detail'' = Some (JStr d) \<Longrightarrow>
   failure_message env (JsonBody (JObj kvs)) fallback = (if d = [] then fallback else d)"
  by (simp add: failure_message_def detail_or_def)

lemma failure_message_absent:
  "map_of (rev kvs) ''detail'' = None \<Longrightarrow>
   failure_message env (JsonBody (JObj kvs)) fallback = fallback"
  by (simp add: failure_message_def detail_or_def)

lemma failure_message_converted:
  "map_of (rev kvs) ''detail'' = Some v \<Longrightarrow> js_truthy v \<Longrightarrow> \<forall>m. v \<noteq> JStr m \<Longrightarrow>
   failure_message env (JsonBody (JObj kvs)) fallback = message_of env v"
  by (cases v) (simp_all add: failure_message_def detail_or_def)

lemma failure_message_falsy:
  "map_of (rev kvs) ''detail'' = Some v \<Longrightarrow> \<not> js_truthy v \<Longrightarrow>
   failure_message env (JsonBody (JObj kvs)) fallback = fallback"
  by (simp add: failure_message_def detail_or_def)
section \<open>Editing, starting and removing\<close>




text \<open>
  Claim C4: right after the synchronous setup of \<^verbatim>\<open>handleStart\<close> there is one job per
  file, in the order of the files, each with the name of its file, status Pending and a
  preview handle (the object URL created for it).
\<close>

theorem start_setup_jobs:
  "render_error s = None \<Longrightarrow>
   length (results (start_setup files s)) = length files \<and>
   (\<forall>i<length files.
      filename (results (start_setup files s) ! i) = name (files ! i) \<and>
      status (results (start_setup files s) ! i) = Pending \<and>
      fileUrl (results (start_setup files s) ! i) = Some (Blob (next_url s + i)))"
  by (simp add: results_start_setup length_initialResults initialResults_nth)

theorem start_setup_jobs_witness:
  "render_error init_state = None \<and>
   length (results (start_setup [file_a, file_b] init_state)) = 2 \<and>
   map filename (results (start_setup [file_a, file_b] init_state)) = [''a.pdf'', ''b.png''] \<and>
   map status (results (start_setup [file_a, file_b] init_state)) = [Pending, Pending] \<and>
   map fileUrl (results (start_setup [file_a, file_b] init_state)) = [Some (Blob 0), Some (Blob 1)]"
proof -
  have m: "render_error init_state = None" by (simp add: init_state_def)
  from start_setup_jobs [OF m, of "[file_a, file_b]"]
  have "length (results (start_setup [file_a, file_b] init_state)) = 2" by simp
  then show ?thesis using m
    by (simp add: results_start_setup file_a_def file_b_def init_state_def)
qed

text \<open>
  Claim C3, where the code departs from it: \<^verbatim>\<open>handleStart\<close> never revokes an
  object URL, whatever the files, the policy and the state it starts from. Evaluated
  on a second \<^verbatim>\<open>handleStart\<close>, after a run that left one job holding \<open>Blob 0\<close>:
  nothing is revoked, and no job of the new list holds \<open>Blob 0\<close> any more.
\<close>

theorem start_leaks_previous_preview:
  "revoked (handleStart files mode env s) = revoked s \<and>
   fileUrl (results first_run ! 0) = Some (Blob 0) \<and>
   revoked (handleStart [file_b] Performance good_env first_run) = [] \<and>
   map fileUrl (results (handleStart [file_b] Performance good_env first_run)) = [Some (Blob 1)]"
proof -
  have "fileUrl (results first_run ! 0) = Some (Blob 0) \<and>
   revoked (handleStart [file_b] Performance good_env first_run) = [] \<and>
   map fileUrl (results (handleStart [file_b] Performance good_env first_run)) = [Some (Blob 1)]"
    by code_simp
  then show ?thesis by (simp add: handleStart_revoked)
qed

text \<open>
  Claim C8: for an index in range, \<^verbatim>\<open>remove(i)\<close> deletes slot \<open>i\<close> and nothing
  else. The list is one shorter; the jobs before \<open>i\<close> keep their place and the jobs
  after it move down by one, every field as it was; the only object URL revoked is the
  one of job \<open>i\<close>.
\<close>

theorem remove_in_range:
  assumes "render_error s = None" and "i < length (results s)"
  shows "results (handleRemoveResult i s) = take i (results s) @ drop (Suc i) (results s) \<and>
         Suc (length (results (handleRemoveResult i s))) = length (results s) \<and>
         revoked (handleRemoveResult i s) =
           revoked s @ (case fileUrl (results s ! i) of Some u \<Rightarrow> [u] | None \<Rightarrow> []) \<and>
         (\<forall>j<i. results (handleRemoveResult i s) ! j = results s ! j) \<and>
         (\<forall>j. i \<le> j \<and> Suc j < length (results s) \<longrightarrow>
              results (handleRemoveResult i s) ! j = results s ! Suc j)"
proof -
  have r: "results (handleRemoveResult i s) = take i (results s) @ drop (Suc i) (results s)"
    using assms filter_enumerate_remove [of i "results s" 0]
    by (simp add: handleRemoveResult_def Let_def split: option.splits)
  have v: "revoked (handleRemoveResult i s) =
           revoked s @ (case fileUrl (results s ! i) of Some u \<Rightarrow> [u] | None \<Rightarrow> [])"
    using assms by (simp add: handleRemoveResult_def Let_def split: option.splits)
  have l: "Suc (length (results (handleRemoveResult i s))) = length (results s)"
    using assms by (simp add: r)
  have b: "\<forall>j<i. results (handleRemoveResult i s) ! j = results s ! j"
    using assms by (simp add: r nth_append)
  have a: "\<forall>j. i \<le> j \<and> Suc j < length (results s) \<longrightarrow>
              results (handleRemoveResult i s) ! j = results s ! Suc j"
    using assms by (auto simp: r nth_append min_def)
  from r l v b a show ?thesis by blast
qed

theorem remove_in_range_witness:
  "render_error (start_setup [file_a, file_b] init_state) = None \<and>
   map filename (results (handleRemoveResult 0 (start_setup [file_a, file_b] init_state))) = [''b.png''] \<and>
   map status (results (handleRemoveResult 0 (start_setup [file_a, file_b] init_state))) = [Pending] \<and>
   revoked (handleRemoveResult 0 (start_setup [file_a, file_b] init_state)) = [Blob 0]"
proof -
  have m: "render_error (start_setup [file_a, file_b] init_state) = None"
    by code_simp
  have r: "results (start_setup [file_a, file_b] init_state) = initialResults [file_a, file_b] 0"
    by (simp add: results_start_setup init_state_def)
  have l: "0 < length (results (start_setup [file_a, file_b] init_state))"
    by (simp add: r)
  from remove_in_range [OF m l] m show ?thesis
    by (simp add: r file_a_def file_b_def init_state_def start_setup_def setResults_def)
qed

text \<open>
  Claim C10: for an index out of range, \<^verbatim>\<open>remove(i)\<close> is not a no-op. The updater
  reads \<^verbatim>\<open>fileUrl\<close> of a slot that does not exist, with no test on the index before,
  and the exception it throws escapes.
\<close>

theorem remove_out_of_range_throws:
  "render_error s = None \<Longrightarrow> length (results s) \<le> i \<Longrightarrow>
   render_error (handleRemoveResult i s) = Some (undefined_read_message ''fileUrl'') \<and>
   handleRemoveResult i s \<noteq> s"
proof -
  assume a: "render_error s = None" "length (results s) \<le> i"
  then have e: "render_error (handleRemoveResult i s) = Some (undefined_read_message ''fileUrl'')"
    by (simp add: handleRemoveResult_def Let_def)
  with a(1) have "handleRemoveResult i s \<noteq> s" by auto
  with e show ?thesis by simp
qed

theorem remove_out_of_range_throws_witness:
  "render_error init_state = None \<and> length (results init_state) \<le> 0 \<and>
   render_error (handleRemoveResult 0 init_state) = Some (undefined_read_message ''fileUrl'') \<and>
   handleRemoveResult 0 init_state \<noteq> init_state"
proof -
  have m: "render_error init_state = None" by (simp add: init_state_def)
  have l: "length (results init_state) \<le> 0" by (simp add: init_state_def)
  from remove_out_of_range_throws [OF m l] m l show ?thesis by simp
qed

section \<open>Unload calls\<close>

text \<open>
  Claim C5: a run under the Batch policy calls unload exactly once when Phase 1 was not
  cancelled, whatever the servers answered and however many jobs failed, and not at
  all when Phase 1 was cancelled; in that case the run makes no call after the extract
  during which it was stopped, so Phase 3 is skipped too.
\<close>

theorem batch_unload_once:
  "count_list (calls (handleStart files Batch env s)) Unload =
     count_list (calls s) Unload + (if phase1_cancelled files env then 0 else 1) \<and>
   (phase1_cancelled files env \<longrightarrow>
      calls (handleStart files Batch env s) =
        calls s @ map Extract (until_first (\<lambda>i. stop_during (extract_out env i)) [0..<length files]))"
proof -
  have c: "calls (handleStart files Batch env s) = calls s @ batch_calls files env"
    by (simp add: handleStart_calls)
  have n: "count_list (calls (handleStart files Batch env s)) Unload =
             count_list (calls s) Unload + (if phase1_cancelled files env then 0 else 1)"
    unfolding c by (simp add: count_unload_batch_calls)
  have p: "phase1_cancelled files env \<longrightarrow>
      calls (handleStart files Batch env s) =
        calls s @ map Extract (until_first (\<lambda>i. stop_during (extract_out env i)) [0..<length files])"
    unfolding c by (simp add: batch_calls_def)
  from n p show ?thesis by (rule conjI)
qed

theorem batch_unload_once_witness:
  "calls (handleStart [file_a, file_b] Batch first_fails_env init_state) =
     [Extract 0, Extract 1, Unload, Parse 1 (Some (JStr ''# Title''))] \<and>
   count_list (calls (handleStart [file_a, file_b] Batch first_fails_env init_state)) Unload = 1 \<and>
   phase1_cancelled [file_a, file_b] stop_at_second_env \<and>
   calls (handleStart [file_a, file_b] Batch stop_at_second_env init_state) = [Extract 0, Extract 1] \<and>
   count_list (calls (handleStart [file_a, file_b] Batch stop_at_second_env init_state)) Unload = 0"
proof -
  have a: "\<not> phase1_cancelled [file_a, file_b] first_fails_env" by code_simp
  have b: "phase1_cancelled [file_a, file_b] stop_at_second_env" by code_simp
  have c: "calls init_state = []" by (simp add: init_state_def)
  have d: "calls (handleStart [file_a, file_b] Batch first_fails_env init_state) =
     [Extract 0, Extract 1, Unload, Parse 1 (Some (JStr ''# Title''))]" by code_simp
  have e: "until_first (\<lambda>i. stop_during (extract_out stop_at_second_env i)) [0..<length [file_a, file_b]] = [0, 1]"
    by code_simp
  from batch_unload_once [of "[file_a, file_b]" first_fails_env init_state]
    batch_unload_once [of "[file_a, file_b]" stop_at_second_env init_state] a b c d e
  show ?thesis by simp
qed

text \<open>
  Claim C6: a run under the Low-VRAM policy makes, for each job it reaches in turn,
  the calls extract, unload, parse when the extract completed successfully and the
  extract alone when it failed or was aborted, and all the calls of a job come before
  any call of the next. So it calls unload once for each job reached whose extract
  completed successfully, and never for another job.
\<close>

theorem lowvram_unload_per_extract:
  "calls (handleStart files LowVram env s) =
     calls s @ concat (map (lowvram_job_calls env)
                  (until_first (lowvram_stopped env) [0..<length files])) \<and>
   count_list (calls (handleStart files LowVram env s)) Unload =
     count_list (calls s) Unload +
     length (filter (\<lambda>i. extract_markdown env i \<noteq> None)
               (until_first (lowvram_stopped env) [0..<length files]))"
  by (simp add: handleStart_calls count_unload_lowvram)

theorem lowvram_unload_per_extract_witness:
  "calls (handleStart [file_a, file_b] LowVram first_fails_env init_state) =
     [Extract 0, Extract 1, Unload, Parse 1 (Some (JStr ''# Title''))] \<and>
   count_list (calls (handleStart [file_a, file_b] LowVram first_fails_env init_state)) Unload = 1 \<and>
   extract_markdown first_fails_env 0 = None \<and>
   extract_markdown first_fails_env 1 = Some (Some (JStr ''# Title'')) \<and>
   calls (handleStart [file_a, file_b] LowVram stop_at_second_env init_state) =
     [Extract 0, Unload, Parse 0 (Some (JStr ''# Title'')), Extract 1] \<and>
   count_list (calls (handleStart [file_a, file_b] LowVram stop_at_second_env init_state)) Unload = 1"
proof -
  have c: "calls init_state = []" by (simp add: init_state_def)
  have u: "until_first (lowvram_stopped first_fails_env) [0..<length [file_a, file_b]] = [0, 1]"
    by code_simp
  have m0: "extract_markdown first_fails_env 0 = None" by code_simp
  have m1: "extract_markdown first_fails_env 1 = Some (Some (JStr ''# Title''))" by code_simp
  have u': "until_first (lowvram_stopped stop_at_second_env) [0..<length [file_a, file_b]] = [0, 1]"
    by code_simp
  have m0': "extract_markdown stop_at_second_env 0 = Some (Some (JStr ''# Title''))" by code_simp
  have m1': "extract_markdown stop_at_second_env 1 = None" by code_simp
  from lowvram_unload_per_extract [of "[file_a, file_b]" first_fails_env init_state]
    lowvram_unload_per_extract [of "[file_a, file_b]" stop_at_second_env init_state]
    c u m0 m1 u' m0' m1'
  show ?thesis by (simp add: lowvram_job_calls_def)
qed

section \<open>Cancellation\<close>

text \<open>
  Claim C7. Right after \<^verbatim>\<open>handleStop\<close> no job is Processing, in whatever state it was
  called. When it is called while a call for job \<open>i\<close> is pending, under any policy,
  the loop of the policy ends there and leaves the state that \<^verbatim>\<open>handleStop\<close>
  returned: job \<open>i\<close> is Pending, not Error, and no job is Processing. The answer of the
  server to the aborted call does not occur in that state, whatever it is. The unload
  call carries no signal; when \<^verbatim>\<open>handleStop\<close> is called during it (or during the parse
  that follows), the job list is again the one \<^verbatim>\<open>handleStop\<close> returned. A Batch run
  whose Phase 1 was cancelled ends with the state Phase 1 left. And when a run returns,
  stopped or not, under any policy and from any state, no job is Processing; the job
  during whose first call the run was stopped is then the job the setup created, with
  status Pending (both as long as the application is mounted).
\<close>

theorem stop_resolves_to_pending:
  assumes "live s" and "render_error s = None" and "i < length (results s)"
  shows
   "(\<forall>r\<in>set (results (handleStop s)). status r \<noteq> Processing) \<and>
    (\<forall>c. status (results (handleStop (call_pending c i s)) ! i) = Pending) \<and>
    (\<forall>c. \<forall>r\<in>set (results (handleStop (call_pending c i s))). status r \<noteq> Processing) \<and>
    (stop_during (process_out env i) \<longrightarrow>
       for_loop (normal_iteration env) aborted (i # rest) s =
         handleStop (call_pending (Process i) i s)) \<and>
    (stop_during (extract_out env i) \<longrightarrow>
       for_loop (batch_extract_iteration env) (\<lambda>ms. aborted (snd ms)) (i # rest) (mr, s) =
         (mr, handleStop (call_pending (Extract i) i s)) \<and>
       for_loop (lowvram_iteration env) aborted (i # rest) s =
         handleStop (call_pending (Extract i) i s)) \<and>
    (phase1_cancelled files env \<longrightarrow>
       handleBatchProcessing files env s = snd (batch_phase1 files env s)) \<and>
    (stop_during (parse_out env i) \<longrightarrow>
       for_loop (batch_parse_iteration env) aborted ((i, md) # rest') s =
         handleStop (call_pending (Parse i md) i s)) \<and>
    (\<not> stop_during (extract_out env i) \<and> extract_markdown env i = Some md \<and>
     (stop_during (unload_out env i) \<or> stop_during (parse_out env i)) \<longrightarrow>
       results (for_loop (lowvram_iteration env) aborted (i # rest) s) =
         results (handleStop (extract_stored i md s)) \<and>
       status (results (handleStop (extract_stored i md s)) ! i) = Pending \<and>
       (\<forall>r\<in>set (results (handleStop (extract_stored i md s))). status r \<noteq> Processing)) \<and>
    (render_error (handleStart files' mode env s0) = None \<longrightarrow>
       (\<forall>r\<in>set (results (handleStart files' mode env s0)). status r \<noteq> Processing)) \<and>
    (j < length files' \<longrightarrow> status (initialResults files' (next_url s0) ! j) = Pending) \<and>
    (j < length files' \<and> stop_during (process_out env j) \<and>
     (\<forall>k<j. \<not> stop_during (process_out env k)) \<longrightarrow>
       job_is j (initialResults files' (next_url s0) ! j) (handleStart files' Performance env s0)) \<and>
    (j < length files' \<and> stop_during (extract_out env j) \<and>
     (\<forall>k<j. \<not> stop_during (extract_out env k)) \<longrightarrow>
       job_is j (initialResults files' (next_url s0) ! j) (handleStart files' Batch env s0)) \<and>
    (j < length files' \<and> stop_during (extract_out env j) \<and>
     (\<forall>k<j. \<not> lowvram_stopped env k) \<longrightarrow>
       job_is j (initialResults files' (next_url s0) ! j) (handleStart files' LowVram env s0))"
proof -
  have na: "\<not> aborted s" using assms(1) by (rule live_not_aborted)
  have c1: "\<forall>r\<in>set (results (handleStop s)). status r \<noteq> Processing"
    using assms(2) by (rule handleStop_no_processing)
  have c2: "\<forall>c. status (results (handleStop (call_pending c i s)) ! i) = Pending"
    using assms(2,3) by (simp add: pending_after_stop results_call_pending)
  have c3: "\<forall>c. \<forall>r\<in>set (results (handleStop (call_pending c i s))). status r \<noteq> Processing"
    using assms(2) by (intro allI handleStop_no_processing) simp
  have c4: "stop_during (process_out env i) \<longrightarrow>
       for_loop (normal_iteration env) aborted (i # rest) s =
         handleStop (call_pending (Process i) i s)"
    using na normal_iteration_stopped [OF assms(1)] by simp
  have c5: "stop_during (extract_out env i) \<longrightarrow>
       for_loop (batch_extract_iteration env) (\<lambda>ms. aborted (snd ms)) (i # rest) (mr, s) =
         (mr, handleStop (call_pending (Extract i) i s)) \<and>
       for_loop (lowvram_iteration env) aborted (i # rest) s =
         handleStop (call_pending (Extract i) i s)"
    using na batch_extract_iteration_stopped [OF assms(1)] lowvram_iteration_stopped [OF assms(1)]
    by simp
  have c6: "phase1_cancelled files env \<longrightarrow>
       handleBatchProcessing files env s = snd (batch_phase1 files env s)"
    using handleBatchProcessing_cancelled [OF assms(1)] by simp
  have c7: "stop_during (parse_out env i) \<longrightarrow>
       for_loop (batch_parse_iteration env) aborted ((i, md) # rest') s =
         handleStop (call_pending (Parse i md) i s)"
    using na batch_parse_iteration_stopped [OF assms(1)] by simp
  have c8: "\<not> stop_during (extract_out env i) \<and> extract_markdown env i = Some md \<and>
     (stop_during (unload_out env i) \<or> stop_during (parse_out env i)) \<longrightarrow>
       results (for_loop (lowvram_iteration env) aborted (i # rest) s) =
         results (handleStop (extract_stored i md s)) \<and>
       status (results (handleStop (extract_stored i md s)) ! i) = Pending \<and>
       (\<forall>r\<in>set (results (handleStop (extract_stored i md s))). status r \<noteq> Processing)"
  proof
    assume h: "\<not> stop_during (extract_out env i) \<and> extract_markdown env i = Some md \<and>
               (stop_during (unload_out env i) \<or> stop_during (parse_out env i))"
    then have it: "lowvram_iteration env i s =
           (Break,
            if stop_during (unload_out env i)
            then log_call (Parse i md) (handleStop (log_call Unload (extract_stored i md s)))
            else handleStop (log_call (Parse i md) (log_call Unload (extract_stored i md s))))"
      using lowvram_iteration_stopped_late [OF assms(1), of env i md] by blast
    have r: "results (for_loop (lowvram_iteration env) aborted (i # rest) s) =
               results (handleStop (extract_stored i md s))"
      using na it by simp
    have p: "status (results (handleStop (extract_stored i md s)) ! i) = Pending"
      using assms(2,3) by (simp add: pending_after_stop results_extract_stored)
    have n: "\<forall>r\<in>set (results (handleStop (extract_stored i md s))). status r \<noteq> Processing"
      using assms(2) by (intro handleStop_no_processing) simp
    from r p n show "results (for_loop (lowvram_iteration env) aborted (i # rest) s) =
         results (handleStop (extract_stored i md s)) \<and>
       status (results (handleStop (extract_stored i md s)) ! i) = Pending \<and>
       (\<forall>r\<in>set (results (handleStop (extract_stored i md s))). status r \<noteq> Processing)"
      by blast
  qed
  have c9: "render_error (handleStart files' mode env s0) = None \<longrightarrow>
       (\<forall>r\<in>set (results (handleStart files' mode env s0)). status r \<noteq> Processing)"
    by (rule handleStart_no_processing)
  have c10: "j < length files' \<longrightarrow> status (initialResults files' (next_url s0) ! j) = Pending"
    by (simp add: status_initialResults)
  have c11: "j < length files' \<and> stop_during (process_out env j) \<and>
     (\<forall>k<j. \<not> stop_during (process_out env k)) \<longrightarrow>
       job_is j (initialResults files' (next_url s0) ! j) (handleStart files' Performance env s0)"
    using performance_stopped_job [of j files' env s0] by blast
  have c12: "j < length files' \<and> stop_during (extract_out env j) \<and>
     (\<forall>k<j. \<not> stop_during (extract_out env k)) \<longrightarrow>
       job_is j (initialResults files' (next_url s0) ! j) (handleStart files' Batch env s0)"
    using batch_stopped_job [of j files' env s0] by blast
  have c13: "j < length files' \<and> stop_during (extract_out env j) \<and>
     (\<forall>k<j. \<not> lowvram_stopped env k) \<longrightarrow>
       job_is j (initialResults files' (next_url s0) ! j) (handleStart files' LowVram env s0)"
    using lowvram_stopped_job [of j files' env s0] by blast
  from c1 c2 c3 c4 c5 c6 c7 c8 c9 c10 c11 c12 c13 show ?thesis by blast
qed

theorem stop_resolves_to_pending_witness:
  "live two_pending \<and> render_error two_pending = None \<and> length (results two_pending) = 2 \<and>
   stop_during (process_out stop_in_parse_env 1) \<and>
   stop_during (extract_out stop_in_parse_env 1) \<and>
   stop_during (parse_out stop_in_parse_env 1) \<and>
   phase1_cancelled [file_a, file_b] stop_in_parse_env \<and>
   map status (results (for_loop (normal_iteration stop_in_parse_env) aborted [1] two_pending)) =
     [Pending, Pending] \<and>
   map status (results (for_loop (lowvram_iteration stop_in_parse_env) aborted [1] two_pending)) =
     [Pending, Pending] \<and>
   map status (results (for_loop (batch_parse_iteration stop_in_parse_env) aborted [(1, None)] two_pending)) =
     [Pending, Pending] \<and>
   map status (results (handleBatchProcessing [file_a, file_b] stop_in_parse_env two_pending)) =
     [Pending, Pending] \<and>
   \<not> stop_during (extract_out stop_in_parse_env 0) \<and>
   extract_markdown stop_in_parse_env 0 = Some (Some (JStr ''# Title'')) \<and>
   stop_during (parse_out stop_in_parse_env 0) \<and>
   map status (results (for_loop (lowvram_iteration stop_in_parse_env) aborted [0, 1] two_pending)) =
     [Pending, Pending] \<and>
   map rawMarkdown (results (for_loop (lowvram_iteration stop_in_parse_env) aborted [0, 1] two_pending)) =
     [Some (JStr ''# Title''), None] \<and>
   render_error (handleStart [file_a, file_b] LowVram stop_in_parse_env init_state) = None \<and>
   map status (results (handleStart [file_a, file_b] LowVram stop_in_parse_env init_state)) =
     [Pending, Pending] \<and>
   stop_during (process_out stop_at_second_env 1) \<and>
   stop_during (extract_out stop_at_second_env 1) \<and>
   results (handleStart [file_a, file_b] Performance stop_at_second_env init_state) ! 1 =
     \<lparr>filename = ''b.png'', status = Pending, rawMarkdown = None, parsedJson = None,
      error = None, processingTime = None, fileUrl = Some (Blob 1)\<rparr> \<and>
   results (handleStart [file_a, file_b] Batch stop_at_second_env init_state) ! 1 =
     \<lparr>filename = ''b.png'', status = Pending, rawMarkdown = None, parsedJson = None,
      error = None, processingTime = None, fileUrl = Some (Blob 1)\<rparr> \<and>
   results (handleStart [file_a, file_b] LowVram stop_at_second_env init_state) ! 1 =
     \<lparr>filename = ''b.png'', status = Pending, rawMarkdown = None, parsedJson = None,
      error = None, processingTime = None, fileUrl = Some (Blob 1)\<rparr>"
proof -
  let ?job = "\<lparr>filename = ''b.png'', status = Pending, rawMarkdown = None, parsedJson = None,
      error = None, processingTime = None, fileUrl = Some (Blob 1)\<rparr>"
  have j1: "1 < length [file_a, file_b]" by simp
  have sp: "stop_during (process_out stop_at_second_env 1)" by code_simp
  have se: "stop_during (extract_out stop_at_second_env 1)" by code_simp
  have "\<not> stop_during (process_out stop_at_second_env 0)" by code_simp
  then have np: "\<forall>k<1. \<not> stop_during (process_out stop_at_second_env k)" by simp
  have "\<not> stop_during (extract_out stop_at_second_env 0)" by code_simp
  then have ne: "\<forall>k<1. \<not> stop_during (extract_out stop_at_second_env k)" by simp
  have "\<not> lowvram_stopped stop_at_second_env 0" by code_simp
  then have nl: "\<forall>k<1. \<not> lowvram_stopped stop_at_second_env k" by simp
  have mp: "render_error (handleStart [file_a, file_b] Performance stop_at_second_env init_state) = None"
    by code_simp
  have mb: "render_error (handleStart [file_a, file_b] Batch stop_at_second_env init_state) = None"
    by code_simp
  have ml: "render_error (handleStart [file_a, file_b] LowVram stop_at_second_env init_state) = None"
    by code_simp
  have ir: "initialResults [file_a, file_b] (next_url init_state) ! 1 = ?job"
    by code_simp
  have w1: "render_error (handleStart [file_a, file_b] LowVram stop_in_parse_env init_state) = None"
    by code_simp
  have w2: "map status (results (handleStart [file_a, file_b] LowVram stop_in_parse_env init_state)) =
     [Pending, Pending]"
    by code_simp
  have l: "live two_pending" by code_simp
  have m: "render_error two_pending = None" by code_simp
  have n: "length (results two_pending) = 2" by code_simp
  have i1: "1 < length (results two_pending)" and i0: "0 < length (results two_pending)"
    using n by simp_all
  have p1: "stop_during (process_out stop_in_parse_env 1)" by code_simp
  have e1: "stop_during (extract_out stop_in_parse_env 1)" by code_simp
  have q1: "stop_during (parse_out stop_in_parse_env 1)" by code_simp
  have ph: "phase1_cancelled [file_a, file_b] stop_in_parse_env" by code_simp
  have e0: "\<not> stop_during (extract_out stop_in_parse_env 0)" by code_simp
  have m0: "extract_markdown stop_in_parse_env 0 = Some (Some (JStr ''# Title''))" by code_simp
  have q0: "stop_during (parse_out stop_in_parse_env 0)" by code_simp
  have v1: "map status (results (handleStop (call_pending c 1 two_pending))) = [Pending, Pending]" for c
    by (simp add: results_handleStop results_call_pending m) code_simp
  have v2: "map status (results (snd (batch_phase1 [file_a, file_b] stop_in_parse_env two_pending))) =
              [Pending, Pending]"
    by code_simp
  have v3: "map status (results (handleStop (extract_stored 0 (Some (JStr ''# Title'')) two_pending))) =
              [Pending, Pending]"
    by code_simp
  have v4: "map rawMarkdown (results (handleStop (extract_stored 0 (Some (JStr ''# Title'')) two_pending))) =
              [Some (JStr ''# Title''), None]"
    by code_simp
  note t1 = stop_resolves_to_pending [OF l m i1, where env = stop_in_parse_env and rest = "[]"
      and mr = "[]" and files = "[file_a, file_b]" and md = None and rest' = "[]"]
  note t0 = stop_resolves_to_pending [OF l m i0, where env = stop_in_parse_env and rest = "[1]"
      and mr = "[]" and files = "[file_a, file_b]" and md = "Some (JStr ''# Title'')" and rest' = "[]"]
  from t1 p1 have a: "for_loop (normal_iteration stop_in_parse_env) aborted [1] two_pending =
      handleStop (call_pending (Process 1) 1 two_pending)" by blast
  from t1 e1 have b: "for_loop (lowvram_iteration stop_in_parse_env) aborted [1] two_pending =
      handleStop (call_pending (Extract 1) 1 two_pending)" by blast
  from t1 q1 have c: "for_loop (batch_parse_iteration stop_in_parse_env) aborted [(1, None)] two_pending =
      handleStop (call_pending (Parse 1 None) 1 two_pending)" by blast
  from t1 ph have d: "handleBatchProcessing [file_a, file_b] stop_in_parse_env two_pending =
      snd (batch_phase1 [file_a, file_b] stop_in_parse_env two_pending)" by blast
  note t2 = stop_resolves_to_pending [OF l m i1, where env = stop_at_second_env and rest = "[]"
      and mr = "[]" and files = "[file_a, file_b]" and md = None and rest' = "[]"
      and files' = "[file_a, file_b]" and ?s0.0 = init_state and j = 1]
  from t2 j1 sp np
  have "job_is 1 (initialResults [file_a, file_b] (next_url init_state) ! 1)
          (handleStart [file_a, file_b] Performance stop_at_second_env init_state)"
    by blast
  with mp ir
  have rp: "results (handleStart [file_a, file_b] Performance stop_at_second_env init_state) ! 1 = ?job"
    by (simp add: job_is_def)
  from t2 j1 se ne
  have "job_is 1 (initialResults [file_a, file_b] (next_url init_state) ! 1)
          (handleStart [file_a, file_b] Batch stop_at_second_env init_state)"
    by blast
  with mb ir
  have rb: "results (handleStart [file_a, file_b] Batch stop_at_second_env init_state) ! 1 = ?job"
    by (simp add: job_is_def)
  from t2 j1 se nl
  have "job_is 1 (initialResults [file_a, file_b] (next_url init_state) ! 1)
          (handleStart [file_a, file_b] LowVram stop_at_second_env init_state)"
    by blast
  with ml ir
  have rl: "results (handleStart [file_a, file_b] LowVram stop_at_second_env init_state) ! 1 = ?job"
    by (simp add: job_is_def)
  from t0 e0 m0 q0 have e: "results (for_loop (lowvram_iteration stop_in_parse_env) aborted [0, 1] two_pending) =
      results (handleStop (extract_stored 0 (Some (JStr ''# Title'')) two_pending))" by blast
  show ?thesis
    unfolding a b c d e using l m n p1 e1 q1 ph e0 m0 q0 v1 v2 v3 v4 w1 w2 sp se rp rb rl by simp
qed

section \<open>Failures and malformed answers\<close>

text \<open>
  Claim C9. When a stage answers the call for job \<open>i\<close> with a response that is not OK,
  the job becomes Error with the message of the failure, which is the \<^verbatim>\<open>detail\<close> the
  server supplied when it is a non-empty string, the fallback of the stage when the
  body has no \<^verbatim>\<open>detail\<close> or a falsy one, and what \<^verbatim>\<open>new Error\<close> makes of the \<^verbatim>\<open>detail\<close> when
  it is a truthy value other than a string; no other job and nothing else of the state changes, and the
  loop goes on with the remaining jobs. This holds for the single call of Performance,
  for the extract call of Batch and of Low-VRAM, and for the parse call of Batch and of
  Low-VRAM: under Low-VRAM a job whose extract delivered markdown and whose parse is
  answered with a failure keeps the markdown, has made the calls extract, unload and
  parse, and is Error with the message of the parse failure. In Phase 1 of Batch the
  failed job is not added to the jobs handed to Phase 3. A run that is never stopped
  makes the calls of every job, whatever the answers: under Batch the parse calls are
  those of the jobs whose extract delivered markdown. And when a run returns, a job
  one of whose calls was answered with a failure, and before which the run was not
  stopped, is the job the setup created with status Error and that message (and with
  its markdown, when the parse is the call that failed), whatever happened to the
  other jobs (as long as the application is mounted).
\<close>

theorem stage_failure_is_isolated:
  assumes "live s" and "render_error s = None" and "i < length (results s)"
  shows
   "(process_out env i = Outcome False (Response False b) \<longrightarrow>
       for_loop (normal_iteration env) aborted (i # rest) s =
       for_loop (normal_iteration env) aborted rest
         (resolved [Process i] i (failed_with (failure_message env b ''Processing failed'')) s)) \<and>
    (extract_out env i = Outcome False (Response False b) \<longrightarrow>
       for_loop (batch_extract_iteration env) (\<lambda>ms. aborted (snd ms)) (i # rest) (mr, s) =
       for_loop (batch_extract_iteration env) (\<lambda>ms. aborted (snd ms)) rest
         (mr, resolved [Extract i] i (failed_with (failure_message env b ''OCR failed'')) s) \<and>
       extracted env i = [] \<and>
       for_loop (lowvram_iteration env) aborted (i # rest) s =
       for_loop (lowvram_iteration env) aborted rest
         (resolved [Extract i] i (failed_with (failure_message env b ''OCR failed'')) s)) \<and>
    (parse_out env i = Outcome False (Response False b) \<longrightarrow>
       for_loop (batch_parse_iteration env) aborted ((i, md) # rest') s =
       for_loop (batch_parse_iteration env) aborted rest'
         (resolved [Parse i md] i (failed_with (failure_message env b ''Parse failed'')) s)) \<and>
    (parse_out env i = Outcome False (Response False b) \<longrightarrow>
       parse_call env i md s =
         (Continue,
          resolved [Parse i md] i (failed_with (failure_message env b ''Parse failed'')) s)) \<and>
    (extract_markdown env i = Some md \<and> \<not> stop_during (unload_out env i) \<and>
     parse_out env i = Outcome False (Response False b) \<longrightarrow>
       lowvram_iteration env i s =
         (Continue,
          resolved [Extract i, Unload, Parse i md] i
            (\<lambda>r. failed_with (failure_message env b ''Parse failed'') (r\<lparr>rawMarkdown := md\<rparr>)) s) \<and>
       for_loop (lowvram_iteration env) aborted (i # rest) s =
       for_loop (lowvram_iteration env) aborted rest
         (resolved [Extract i, Unload, Parse i md] i
            (\<lambda>r. failed_with (failure_message env b ''Parse failed'') (r\<lparr>rawMarkdown := md\<rparr>)) s)) \<and>
    failure_message env (JsonBody (JObj [(''detail'', JStr d)])) fallback =
      (if d = [] then fallback else d) \<and>
    (map_of (rev kvs) ''detail'' = Some (JStr d) \<longrightarrow>
       failure_message env (JsonBody (JObj kvs)) fallback = (if d = [] then fallback else d)) \<and>
    (map_of (rev kvs) ''detail'' = None \<longrightarrow>
       failure_message env (JsonBody (JObj kvs)) fallback = fallback) \<and>
    (map_of (rev kvs') ''detail'' = Some v \<and> js_truthy v \<and> (\<forall>m. v \<noteq> JStr m) \<longrightarrow>
       failure_message env (JsonBody (JObj kvs')) fallback = message_of env v) \<and>
    (map_of (rev kvs') ''detail'' = Some v \<and> \<not> js_truthy v \<longrightarrow>
       failure_message env (JsonBody (JObj kvs')) fallback = fallback) \<and>
    (never_stopped files env \<longrightarrow>
       calls (handleStart files Performance env s0) =
         calls s0 @ map Process [0..<length files] \<and>
       calls (handleStart files Batch env s0) =
         calls s0 @ map Extract [0..<length files] @ [Unload] @
         map parse_of (concat (map (extracted env) [0..<length files])) \<and>
       calls (handleStart files LowVram env s0) =
         calls s0 @ concat (map (lowvram_job_calls env) [0..<length files])) \<and>
    (j < length files \<and> process_out env j = Outcome False (Response False b) \<and>
     (\<forall>k<j. \<not> stop_during (process_out env k)) \<longrightarrow>
       job_is j (failed_with (failure_message env b ''Processing failed'')
                   (initialResults files (next_url s0) ! j))
         (handleStart files Performance env s0)) \<and>
    (j < length files \<and> extract_out env j = Outcome False (Response False b) \<and>
     (\<forall>k<j. \<not> stop_during (extract_out env k)) \<longrightarrow>
       job_is j (failed_with (failure_message env b ''OCR failed'')
                   (initialResults files (next_url s0) ! j))
         (handleStart files Batch env s0)) \<and>
    (j < length files \<and> extract_out env j = Outcome False (Response False b) \<and>
     (\<forall>k<j. \<not> lowvram_stopped env k) \<longrightarrow>
       job_is j (failed_with (failure_message env b ''OCR failed'')
                   (initialResults files (next_url s0) ! j))
         (handleStart files LowVram env s0)) \<and>
    (j < length files \<and> extract_markdown env j = Some md \<and>
     \<not> stop_during (unload_out env j) \<and>
     parse_out env j = Outcome False (Response False b) \<and>
     (\<forall>k<j. \<not> lowvram_stopped env k) \<longrightarrow>
       job_is j (failed_with (failure_message env b ''Parse failed'')
                   ((initialResults files (next_url s0) ! j)\<lparr>rawMarkdown := md\<rparr>))
         (handleStart files LowVram env s0)) \<and>
    (j < length files \<and> extract_markdown env j = Some md \<and>
     parse_out env j = Outcome False (Response False b) \<and>
     (\<forall>k<length files. \<not> stop_during (extract_out env k)) \<and>
     \<not> stop_during (batch_unload_out env) \<and>
     (\<forall>k<j. \<not> stop_during (parse_out env k)) \<longrightarrow>
       job_is j (failed_with (failure_message env b ''Parse failed'')
                   ((initialResults files (next_url s0) ! j)\<lparr>rawMarkdown := md\<rparr>))
         (handleStart files Batch env s0))"
proof -
  have na: "\<not> aborted s" using assms(1) by (rule live_not_aborted)
  have c1: "process_out env i = Outcome False (Response False b) \<longrightarrow>
       for_loop (normal_iteration env) aborted (i # rest) s =
       for_loop (normal_iteration env) aborted rest
         (resolved [Process i] i (failed_with (failure_message env b ''Processing failed'')) s)"
    using na normal_iteration_failed [OF assms] by simp
  have c2: "extract_out env i = Outcome False (Response False b) \<longrightarrow>
       for_loop (batch_extract_iteration env) (\<lambda>ms. aborted (snd ms)) (i # rest) (mr, s) =
       for_loop (batch_extract_iteration env) (\<lambda>ms. aborted (snd ms)) rest
         (mr, resolved [Extract i] i (failed_with (failure_message env b ''OCR failed'')) s) \<and>
       extracted env i = [] \<and>
       for_loop (lowvram_iteration env) aborted (i # rest) s =
       for_loop (lowvram_iteration env) aborted rest
         (resolved [Extract i] i (failed_with (failure_message env b ''OCR failed'')) s)"
    using na batch_extract_iteration_failed [OF assms] lowvram_iteration_failed [OF assms]
      extracted_failed [of env i b]
    by simp
  have c3: "parse_out env i = Outcome False (Response False b) \<longrightarrow>
       for_loop (batch_parse_iteration env) aborted ((i, md) # rest') s =
       for_loop (batch_parse_iteration env) aborted rest'
         (resolved [Parse i md] i (failed_with (failure_message env b ''Parse failed'')) s)"
    using na batch_parse_iteration_failed [OF assms] by simp
  have c3a: "parse_out env i = Outcome False (Response False b) \<longrightarrow>
       parse_call env i md s =
         (Continue,
          resolved [Parse i md] i (failed_with (failure_message env b ''Parse failed'')) s)"
    using parse_call_failed [OF assms] by simp
  have c3b: "extract_markdown env i = Some md \<and> \<not> stop_during (unload_out env i) \<and>
     parse_out env i = Outcome False (Response False b) \<longrightarrow>
       lowvram_iteration env i s =
         (Continue,
          resolved [Extract i, Unload, Parse i md] i
            (\<lambda>r. failed_with (failure_message env b ''Parse failed'') (r\<lparr>rawMarkdown := md\<rparr>)) s) \<and>
       for_loop (lowvram_iteration env) aborted (i # rest) s =
       for_loop (lowvram_iteration env) aborted rest
         (resolved [Extract i, Unload, Parse i md] i
            (\<lambda>r. failed_with (failure_message env b ''Parse failed'') (r\<lparr>rawMarkdown := md\<rparr>)) s)"
    using na lowvram_iteration_parse_failed [OF assms, of env md b] by simp
  have c4: "failure_message env (JsonBody (JObj [(''detail'', JStr d)])) fallback =
      (if d = [] then fallback else d)"
    by (rule failure_message_detail)
  have c4a: "map_of (rev kvs) ''detail'' = Some (JStr d) \<longrightarrow>
       failure_message env (JsonBody (JObj kvs)) fallback = (if d = [] then fallback else d)"
    using failure_message_string [of kvs d env fallback] by blast
  have c4b: "map_of (rev kvs) ''detail'' = None \<longrightarrow>
       failure_message env (JsonBody (JObj kvs)) fallback = fallback"
    using failure_message_absent [of kvs env fallback] by blast
  have c4c: "map_of (rev kvs') ''detail'' = Some v \<and> js_truthy v \<and> (\<forall>m. v \<noteq> JStr m) \<longrightarrow>
       failure_message env (JsonBody (JObj kvs')) fallback = message_of env v"
    using failure_message_converted [of kvs' v env fallback] by blast
  have c4d: "map_of (rev kvs') ''detail'' = Some v \<and> \<not> js_truthy v \<longrightarrow>
       failure_message env (JsonBody (JObj kvs')) fallback = fallback"
    using failure_message_falsy [of kvs' v env fallback] by blast
  have c5: "never_stopped files env \<longrightarrow>
       calls (handleStart files Performance env s0) =
         calls s0 @ map Process [0..<length files] \<and>
       calls (handleStart files Batch env s0) =
         calls s0 @ map Extract [0..<length files] @ [Unload] @
         map parse_of (concat (map (extracted env) [0..<length files])) \<and>
       calls (handleStart files LowVram env s0) =
         calls s0 @ concat (map (lowvram_job_calls env) [0..<length files])"
    using runs_complete [of files env s0] by blast
  have c6: "j < length files \<and> process_out env j = Outcome False (Response False b) \<and>
     (\<forall>k<j. \<not> stop_during (process_out env k)) \<longrightarrow>
       job_is j (failed_with (failure_message env b ''Processing failed'')
                   (initialResults files (next_url s0) ! j))
         (handleStart files Performance env s0)"
    using performance_failed_job [of j files env b s0] by blast
  have c7: "j < length files \<and> extract_out env j = Outcome False (Response False b) \<and>
     (\<forall>k<j. \<not> stop_during (extract_out env k)) \<longrightarrow>
       job_is j (failed_with (failure_message env b ''OCR failed'')
                   (initialResults files (next_url s0) ! j))
         (handleStart files Batch env s0)"
    using batch_failed_job [of j files env b s0] by blast
  have c8: "j < length files \<and> extract_out env j = Outcome False (Response False b) \<and>
     (\<forall>k<j. \<not> lowvram_stopped env k) \<longrightarrow>
       job_is j (failed_with (failure_message env b ''OCR failed'')
                   (initialResults files (next_url s0) ! j))
         (handleStart files LowVram env s0)"
    using lowvram_failed_job [of j files env b s0] by blast
  have c9: "j < length files \<and> extract_markdown env j = Some md \<and>
     \<not> stop_during (unload_out env j) \<and>
     parse_out env j = Outcome False (Response False b) \<and>
     (\<forall>k<j. \<not> lowvram_stopped env k) \<longrightarrow>
       job_is j (failed_with (failure_message env b ''Parse failed'')
                   ((initialResults files (next_url s0) ! j)\<lparr>rawMarkdown := md\<rparr>))
         (handleStart files LowVram env s0)"
    using lowvram_failed_parse_job [of j files env md b s0] by blast
  have c10: "j < length files \<and> extract_markdown env j = Some md \<and>
     parse_out env j = Outcome False (Response False b) \<and>
     (\<forall>k<length files. \<not> stop_during (extract_out env k)) \<and>
     \<not> stop_during (batch_unload_out env) \<and>
     (\<forall>k<j. \<not> stop_during (parse_out env k)) \<longrightarrow>
       job_is j (failed_with (failure_message env b ''Parse failed'')
                   ((initialResults files (next_url s0) ! j)\<lparr>rawMarkdown := md\<rparr>))
         (handleStart files Batch env s0)"
    using batch_failed_parse_job [of j files env md b s0] by blast
  show ?thesis
    by (intro conjI c1 c2 c3 c3a c3b c4 c4a c4b c4c c4d c5 c6 c7 c8 c9 c10)
qed

theorem stage_failure_is_isolated_witness:
  "live two_pending \<and>
   render_error two_pending = None \<and>
   length (results two_pending) = 2 \<and>
   never_stopped [file_a, file_b] all_fail_env \<and>
   process_out all_fail_env 0 = failed_json ''model crashed'' \<and>
   extract_out all_fail_env 0 = failed_json ''model crashed'' \<and>
   parse_out all_fail_env 0 = failed_json ''model crashed'' \<and>
   map status (results (for_loop (normal_iteration all_fail_env) aborted [0, 1] two_pending)) =
     [Error, Error] \<and>
   map error (results (for_loop (normal_iteration all_fail_env) aborted [0, 1] two_pending)) =
     [Some ''model crashed'', Some ''model crashed''] \<and>
   map status (results (for_loop (lowvram_iteration all_fail_env) aborted [0, 1] two_pending)) =
     [Error, Error] \<and>
   map status (results (for_loop (batch_parse_iteration all_fail_env) aborted [(0, None)] two_pending)) =
     [Error, Pending] \<and>
   calls (handleStart [file_a, file_b] Performance all_fail_env init_state) =
     [Process 0, Process 1] \<and>
   calls (handleStart [file_a, file_b] Batch all_fail_env init_state) =
     [Extract 0, Extract 1, Unload] \<and>
   calls (handleStart [file_a, file_b] LowVram all_fail_env init_state) =
     [Extract 0, Extract 1] \<and>
   render_error (handleStart [file_a, file_b] Performance all_fail_env init_state) = None \<and>
   results (handleStart [file_a, file_b] Performance all_fail_env init_state) ! 1 =
     \<lparr>filename = ''b.png'', status = Error, rawMarkdown = None, parsedJson = None,
      error = Some ''model crashed'', processingTime = None, fileUrl = Some (Blob 1)\<rparr> \<and>
   render_error (handleStart [file_a, file_b] Batch all_fail_env init_state) = None \<and>
   results (handleStart [file_a, file_b] Batch all_fail_env init_state) ! 1 =
     \<lparr>filename = ''b.png'', status = Error, rawMarkdown = None, parsedJson = None,
      error = Some ''model crashed'', processingTime = None, fileUrl = Some (Blob 1)\<rparr> \<and>
   render_error (handleStart [file_a, file_b] LowVram all_fail_env init_state) = None \<and>
   results (handleStart [file_a, file_b] LowVram all_fail_env init_state) ! 1 =
     \<lparr>filename = ''b.png'', status = Error, rawMarkdown = None, parsedJson = None,
      error = Some ''model crashed'', processingTime = None, fileUrl = Some (Blob 1)\<rparr> \<and>
   failure_message all_fail_env (JsonBody (JObj [(''detail'', JStr ''model crashed'')])) ''OCR failed'' = ''model crashed'' \<and>
   failure_message all_fail_env (JsonBody (JObj [(''detail'', JArr [JObj [(''msg'', JStr ''field required'')]])])) ''OCR failed'' =
     ''[object Object]'' \<and>
   extract_markdown parse_fails_env 0 = Some (Some (JStr ''# Title'')) \<and>
   \<not> stop_during (unload_out parse_fails_env 0) \<and>
   parse_out parse_fails_env 0 = failed_json ''template not found'' \<and>
   never_stopped [file_a, file_b] parse_fails_env \<and>
   fst (lowvram_iteration parse_fails_env 0 two_pending) = Continue \<and>
   results (snd (lowvram_iteration parse_fails_env 0 two_pending)) =
     [\<lparr>filename = ''a.pdf'', status = Error, rawMarkdown = (Some (JStr ''# Title'')), parsedJson = None,
      error = Some ''template not found'', processingTime = None, fileUrl = Some (Blob 0)\<rparr>,
      \<lparr>filename = ''b.png'', status = Pending, rawMarkdown = None, parsedJson = None,
      error = None, processingTime = None, fileUrl = Some (Blob 1)\<rparr>] \<and>
   calls (snd (lowvram_iteration parse_fails_env 0 two_pending)) =
     [Extract 0, Unload, Parse 0 (Some (JStr ''# Title''))] \<and>
   map status (results (snd (parse_call parse_fails_env 0 (Some (JStr ''# Title'')) two_pending))) =
     [Error, Pending] \<and>
   map error (results (snd (parse_call parse_fails_env 0 (Some (JStr ''# Title'')) two_pending))) =
     [Some ''template not found'', None] \<and>
   map status (results (for_loop (lowvram_iteration parse_fails_env) aborted [0, 1] two_pending)) =
     [Error, Error] \<and>
   map error (results (for_loop (lowvram_iteration parse_fails_env) aborted [0, 1] two_pending)) =
     [Some ''template not found'', Some ''template not found''] \<and>
   calls (handleStart [file_a, file_b] LowVram parse_fails_env init_state) =
     [Extract 0, Unload, Parse 0 (Some (JStr ''# Title'')), Extract 1, Unload, Parse 1 (Some (JStr ''# Title''))] \<and>
   calls (handleStart [file_a, file_b] Batch parse_fails_env init_state) =
     [Extract 0, Extract 1, Unload, Parse 0 (Some (JStr ''# Title'')), Parse 1 (Some (JStr ''# Title''))] \<and>
   render_error (handleStart [file_a, file_b] LowVram parse_fails_env init_state) = None \<and>
   results (handleStart [file_a, file_b] LowVram parse_fails_env init_state) ! 1 =
     \<lparr>filename = ''b.png'', status = Error, rawMarkdown = (Some (JStr ''# Title'')), parsedJson = None,
      error = Some ''template not found'', processingTime = None, fileUrl = Some (Blob 1)\<rparr> \<and>
   render_error (handleStart [file_a, file_b] Batch parse_fails_env init_state) = None \<and>
   results (handleStart [file_a, file_b] Batch parse_fails_env init_state) ! 1 =
     \<lparr>filename = ''b.png'', status = Error, rawMarkdown = (Some (JStr ''# Title'')), parsedJson = None,
      error = Some ''template not found'', processingTime = None, fileUrl = Some (Blob 1)\<rparr> \<and>
   failure_message parse_fails_env (JsonBody (JObj [])) ''Parse failed'' = ''Parse failed'' \<and>
   failure_message parse_fails_env (JsonBody (JObj [(''detail'', JNull)])) ''Parse failed'' = ''Parse failed''"
proof -
  have l: "live two_pending"
    by code_simp
  have m: "render_error two_pending = None"
    by code_simp
  have n: "length (results two_pending) = 2"
    by code_simp
  have i0: "0 < length (results two_pending)" using n by simp
  have j1: "1 < length [file_a, file_b]" by simp
  have u: "[0..<length [file_a, file_b]] = [0, 1]" by code_simp
  have c0: "calls init_state = []" by (simp add: init_state_def)
  have ns: "never_stopped [file_a, file_b] all_fail_env"
    by code_simp
  have p0: "process_out all_fail_env 0 = failed_json ''model crashed''"
    by (simp add: all_fail_env_def)
  have e0: "extract_out all_fail_env 0 = failed_json ''model crashed''"
    by (simp add: all_fail_env_def)
  have q0: "parse_out all_fail_env 0 = failed_json ''model crashed''"
    by (simp add: all_fail_env_def)
  have p: "process_out all_fail_env 0 = Outcome False (Response False (JsonBody (JObj [(''detail'', JStr ''model crashed'')])))"
    by (simp add: all_fail_env_def failed_json_def)
  have e: "extract_out all_fail_env 0 = Outcome False (Response False (JsonBody (JObj [(''detail'', JStr ''model crashed'')])))"
    by (simp add: all_fail_env_def failed_json_def)
  have q: "parse_out all_fail_env 0 = Outcome False (Response False (JsonBody (JObj [(''detail'', JStr ''model crashed'')])))"
    by (simp add: all_fail_env_def failed_json_def)
  have p': "process_out all_fail_env 1 = Outcome False (Response False (JsonBody (JObj [(''detail'', JStr ''model crashed'')])))"
    by (simp add: all_fail_env_def failed_json_def)
  have e': "extract_out all_fail_env 1 = Outcome False (Response False (JsonBody (JObj [(''detail'', JStr ''model crashed'')])))"
    by (simp add: all_fail_env_def failed_json_def)
  have np: "\<forall>k<1. \<not> stop_during (process_out all_fail_env k)"
    by (simp add: all_fail_env_def failed_json_def)
  have ne: "\<forall>k<1. \<not> stop_during (extract_out all_fail_env k)"
    by (simp add: all_fail_env_def failed_json_def)
  have "\<not> lowvram_stopped all_fail_env 0" by code_simp
  then have nl: "\<forall>k<1. \<not> lowvram_stopped all_fail_env k" by simp
  have kv: "map_of (rev [(''detail'', JStr ''model crashed'')]) ''detail'' = Some (JStr ''model crashed'')"
    by simp
  have tp: "failed_with (failure_message all_fail_env (JsonBody (JObj [(''detail'', JStr ''model crashed'')])) ''Processing failed'')
              (initialResults [file_a, file_b] (next_url init_state) ! 1) =
       \<lparr>filename = ''b.png'', status = Error, rawMarkdown = None, parsedJson = None,
      error = Some ''model crashed'', processingTime = None, fileUrl = Some (Blob 1)\<rparr>"
    by code_simp
  have te: "failed_with (failure_message all_fail_env (JsonBody (JObj [(''detail'', JStr ''model crashed'')])) ''OCR failed'')
              (initialResults [file_a, file_b] (next_url init_state) ! 1) =
       \<lparr>filename = ''b.png'', status = Error, rawMarkdown = None, parsedJson = None,
      error = Some ''model crashed'', processingTime = None, fileUrl = Some (Blob 1)\<rparr>"
    by code_simp
  note t = stage_failure_is_isolated [OF l m i0, where env = all_fail_env
      and b = "JsonBody (JObj [(''detail'', JStr ''model crashed'')])"
      and rest = "[1]" and mr = "[]" and md = None and rest' = "[]" and files = "[file_a, file_b]"
      and ?s0.0 = init_state and d = "''model crashed''" and fallback = "''OCR failed''"
      and kvs = "[(''detail'', JStr ''model crashed'')]" and j = 1
      and kvs' = "[(''detail'', JArr [JObj [(''msg'', JStr ''field required'')]])]"
      and v = "JArr [JObj [(''msg'', JStr ''field required'')]]"]
  from t [THEN conjunct2, THEN conjunct2, THEN conjunct2, THEN conjunct2, THEN conjunct2,
      THEN conjunct2, THEN conjunct2, THEN conjunct2, THEN conjunct2, THEN conjunct2,
      THEN conjunct2, THEN conjunct1] j1 p' np
  have gp: "job_is 1 (failed_with (failure_message all_fail_env (JsonBody (JObj [(''detail'', JStr ''model crashed'')])) ''Processing failed'')
                   (initialResults [file_a, file_b] (next_url init_state) ! 1))
         (handleStart [file_a, file_b] Performance all_fail_env init_state)"
    by blast
  from t [THEN conjunct2, THEN conjunct2, THEN conjunct2, THEN conjunct2, THEN conjunct2,
      THEN conjunct2, THEN conjunct2, THEN conjunct2, THEN conjunct2, THEN conjunct2,
      THEN conjunct2, THEN conjunct2, THEN conjunct1] j1 e' ne
  have gb: "job_is 1 (failed_with (failure_message all_fail_env (JsonBody (JObj [(''detail'', JStr ''model crashed'')])) ''OCR failed'')
                   (initialResults [file_a, file_b] (next_url init_state) ! 1))
         (handleStart [file_a, file_b] Batch all_fail_env init_state)"
    by blast
  from t [THEN conjunct2, THEN conjunct2, THEN conjunct2, THEN conjunct2, THEN conjunct2,
      THEN conjunct2, THEN conjunct2, THEN conjunct2, THEN conjunct2, THEN conjunct2,
      THEN conjunct2, THEN conjunct2, THEN conjunct2, THEN conjunct1] j1 e' nl
  have gl: "job_is 1 (failed_with (failure_message all_fail_env (JsonBody (JObj [(''detail'', JStr ''model crashed'')])) ''OCR failed'')
                   (initialResults [file_a, file_b] (next_url init_state) ! 1))
         (handleStart [file_a, file_b] LowVram all_fail_env init_state)"
    by blast
  from t [THEN conjunct1] p have a1: "for_loop (normal_iteration all_fail_env) aborted [0, 1] two_pending =
      for_loop (normal_iteration all_fail_env) aborted [1]
        (resolved [Process 0] 0 (failed_with (failure_message all_fail_env (JsonBody (JObj [(''detail'', JStr ''model crashed'')])) ''Processing failed'')) two_pending)"
    by blast
  from t [THEN conjunct2, THEN conjunct1] e have a2: "for_loop (lowvram_iteration all_fail_env) aborted [0, 1] two_pending =
      for_loop (lowvram_iteration all_fail_env) aborted [1]
        (resolved [Extract 0] 0 (failed_with (failure_message all_fail_env (JsonBody (JObj [(''detail'', JStr ''model crashed'')])) ''OCR failed'')) two_pending)"
    by blast
  from t [THEN conjunct2, THEN conjunct2, THEN conjunct1] q have a3: "for_loop (batch_parse_iteration all_fail_env) aborted [(0, None)] two_pending =
      for_loop (batch_parse_iteration all_fail_env) aborted []
        (resolved [Parse 0 None] 0 (failed_with (failure_message all_fail_env (JsonBody (JObj [(''detail'', JStr ''model crashed'')])) ''Parse failed'')) two_pending)"
    by blast
  from t [THEN conjunct2, THEN conjunct2, THEN conjunct2, THEN conjunct2, THEN conjunct2,
      THEN conjunct2, THEN conjunct2, THEN conjunct2, THEN conjunct2, THEN conjunct2,
      THEN conjunct1] ns have a4: "calls (handleStart [file_a, file_b] Performance all_fail_env init_state) =
         calls init_state @ map Process [0..<length [file_a, file_b]]"
    and a5: "calls (handleStart [file_a, file_b] Batch all_fail_env init_state) =
         calls init_state @ map Extract [0..<length [file_a, file_b]] @ [Unload] @
         map parse_of (concat (map (extracted all_fail_env) [0..<length [file_a, file_b]]))"
    and a6: "calls (handleStart [file_a, file_b] LowVram all_fail_env init_state) =
         calls init_state @ concat (map (lowvram_job_calls all_fail_env) [0..<length [file_a, file_b]])"
    by blast+
  from t [THEN conjunct2, THEN conjunct2, THEN conjunct2, THEN conjunct2, THEN conjunct2,
      THEN conjunct2, THEN conjunct1] kv have a7: "failure_message all_fail_env (JsonBody (JObj [(''detail'', JStr ''model crashed'')])) ''OCR failed'' =
      (if ''model crashed'' = [] then ''OCR failed'' else ''model crashed'')"
    by blast
  have kv3: "map_of (rev [(''detail'', JArr [JObj [(''msg'', JStr ''field required'')]])]) ''detail'' =
      Some (JArr [JObj [(''msg'', JStr ''field required'')]])"
    by simp
  have tv: "js_truthy (JArr [JObj [(''msg'', JStr ''field required'')]])" by simp
  have sv: "\<forall>m. JArr [JObj [(''msg'', JStr ''field required'')]] \<noteq> JStr m" by simp
  from t [THEN conjunct2, THEN conjunct2, THEN conjunct2, THEN conjunct2, THEN conjunct2,
      THEN conjunct2, THEN conjunct2, THEN conjunct2, THEN conjunct1] kv3 tv sv
  have a8: "failure_message all_fail_env (JsonBody (JObj [(''detail'', JArr [JObj [(''msg'', JStr ''field required'')]])])) ''OCR failed'' =
      message_of all_fail_env (JArr [JObj [(''msg'', JStr ''field required'')]])"
    by blast
  have f1: "map status (results (for_loop (normal_iteration all_fail_env) aborted [0, 1] two_pending)) =
       [Error, Error]"
    unfolding a1 by code_simp
  have f2: "map error (results (for_loop (normal_iteration all_fail_env) aborted [0, 1] two_pending)) =
       [Some ''model crashed'', Some ''model crashed'']"
    unfolding a1 by code_simp
  have f3: "map status (results (for_loop (lowvram_iteration all_fail_env) aborted [0, 1] two_pending)) =
       [Error, Error]"
    unfolding a2 by code_simp
  have f4: "map status (results (for_loop (batch_parse_iteration all_fail_env) aborted [(0, None)] two_pending)) =
       [Error, Pending]"
    unfolding a3 by code_simp
  have f5: "calls (handleStart [file_a, file_b] Performance all_fail_env init_state) =
       [Process 0, Process 1]"
    unfolding a4 u c0 by code_simp
  have f6: "calls (handleStart [file_a, file_b] Batch all_fail_env init_state) =
       [Extract 0, Extract 1, Unload]"
    unfolding a5 u c0 by code_simp
  have f7: "calls (handleStart [file_a, file_b] LowVram all_fail_env init_state) =
       [Extract 0, Extract 1]"
    unfolding a6 u c0 by code_simp
  have mp: "render_error (handleStart [file_a, file_b] Performance all_fail_env init_state) = None"
    by code_simp
  have mb: "render_error (handleStart [file_a, file_b] Batch all_fail_env init_state) = None"
    by code_simp
  have ml: "render_error (handleStart [file_a, file_b] LowVram all_fail_env init_state) = None"
    by code_simp
  have rp: "results (handleStart [file_a, file_b] Performance all_fail_env init_state) ! 1 =
       \<lparr>filename = ''b.png'', status = Error, rawMarkdown = None, parsedJson = None,
        error = Some ''model crashed'', processingTime = None, fileUrl = Some (Blob 1)\<rparr>"
    using gp mp tp by (simp add: job_is_def)
  have rb: "results (handleStart [file_a, file_b] Batch all_fail_env init_state) ! 1 =
       \<lparr>filename = ''b.png'', status = Error, rawMarkdown = None, parsedJson = None,
        error = Some ''model crashed'', processingTime = None, fileUrl = Some (Blob 1)\<rparr>"
    using gb mb te by (simp add: job_is_def)
  have rl: "results (handleStart [file_a, file_b] LowVram all_fail_env init_state) ! 1 =
       \<lparr>filename = ''b.png'', status = Error, rawMarkdown = None, parsedJson = None,
        error = Some ''model crashed'', processingTime = None, fileUrl = Some (Blob 1)\<rparr>"
    using gl ml te by (simp add: job_is_def)
  have d1: "failure_message all_fail_env (JsonBody (JObj [(''detail'', JStr ''model crashed'')])) ''OCR failed'' = ''model crashed''"
    using a7 by simp
  have d3: "failure_message all_fail_env (JsonBody (JObj [(''detail'', JArr [JObj [(''msg'', JStr ''field required'')]])])) ''OCR failed'' =
       ''[object Object]''"
    using a8 by (simp add: all_fail_env_def good_env_def)
  have xm0: "extract_markdown parse_fails_env 0 = Some (Some (JStr ''# Title''))"
    by code_simp
  have nu0: "\<not> stop_during (unload_out parse_fails_env 0)"
    by code_simp
  have pq0: "parse_out parse_fails_env 0 = failed_json ''template not found''"
    by (simp add: parse_fails_env_def)
  have ns2: "never_stopped [file_a, file_b] parse_fails_env"
    by code_simp
  have xm1: "extract_markdown parse_fails_env 1 = Some (Some (JStr ''# Title''))" by code_simp
  have nu1: "\<not> stop_during (unload_out parse_fails_env 1)" by code_simp
  have pq: "parse_out parse_fails_env 0 = Outcome False (Response False (JsonBody (JObj [(''detail'', JStr ''template not found'')])))"
    by (simp add: parse_fails_env_def failed_json_def)
  have pq': "parse_out parse_fails_env 1 = Outcome False (Response False (JsonBody (JObj [(''detail'', JStr ''template not found'')])))"
    by (simp add: parse_fails_env_def failed_json_def)
  have "\<not> lowvram_stopped parse_fails_env 0" by code_simp
  then have nl2: "\<forall>k<1. \<not> lowvram_stopped parse_fails_env k" by simp
  have ne2: "\<forall>k<length [file_a, file_b]. \<not> stop_during (extract_out parse_fails_env k)"
    by (simp add: parse_fails_env_def good_env_def ok_json_def)
  have nb2: "\<not> stop_during (batch_unload_out parse_fails_env)"
    by (simp add: parse_fails_env_def good_env_def ok_json_def)
  have np2: "\<forall>k<1. \<not> stop_during (parse_out parse_fails_env k)"
    by (simp add: parse_fails_env_def failed_json_def)
  have kv2: "map_of (rev ([] :: (string \<times> json) list)) ''detail'' = None" by simp
  have tq: "failed_with (failure_message parse_fails_env (JsonBody (JObj [(''detail'', JStr ''template not found'')])) ''Parse failed'')
              ((initialResults [file_a, file_b] (next_url init_state) ! 1)\<lparr>rawMarkdown := Some (JStr ''# Title'')\<rparr>) =
       \<lparr>filename = ''b.png'', status = Error, rawMarkdown = (Some (JStr ''# Title'')), parsedJson = None,
      error = Some ''template not found'', processingTime = None, fileUrl = Some (Blob 1)\<rparr>"
    by code_simp
  note t2 = stage_failure_is_isolated [OF l m i0, where env = parse_fails_env
      and b = "JsonBody (JObj [(''detail'', JStr ''template not found'')])"
      and rest = "[1]" and mr = "[]" and md = "Some (JStr ''# Title'')" and rest' = "[]"
      and files = "[file_a, file_b]" and ?s0.0 = init_state and d = "''template not found''"
      and fallback = "''Parse failed''" and kvs = "[]" and j = 1
      and kvs' = "[(''detail'', JNull)]" and v = JNull]
  from t2 [THEN conjunct2, THEN conjunct2, THEN conjunct2, THEN conjunct2, THEN conjunct1] xm0 nu0 pq
  have b1: "lowvram_iteration parse_fails_env 0 two_pending =
      (Continue, resolved [Extract 0, Unload, Parse 0 (Some (JStr ''# Title''))] 0
        (\<lambda>r. failed_with (failure_message parse_fails_env (JsonBody (JObj [(''detail'', JStr ''template not found'')])) ''Parse failed'') (r\<lparr>rawMarkdown := Some (JStr ''# Title'')\<rparr>)) two_pending)"
    and b2: "for_loop (lowvram_iteration parse_fails_env) aborted [0, 1] two_pending =
      for_loop (lowvram_iteration parse_fails_env) aborted [1]
        (resolved [Extract 0, Unload, Parse 0 (Some (JStr ''# Title''))] 0
        (\<lambda>r. failed_with (failure_message parse_fails_env (JsonBody (JObj [(''detail'', JStr ''template not found'')])) ''Parse failed'') (r\<lparr>rawMarkdown := Some (JStr ''# Title'')\<rparr>)) two_pending)"
    by blast+
  from t2 [THEN conjunct2, THEN conjunct2, THEN conjunct2, THEN conjunct1] pq have b3: "parse_call parse_fails_env 0 (Some (JStr ''# Title'')) two_pending =
      (Continue, resolved [Parse 0 (Some (JStr ''# Title''))] 0 (failed_with (failure_message parse_fails_env (JsonBody (JObj [(''detail'', JStr ''template not found'')])) ''Parse failed'')) two_pending)"
    by blast
  from t2 [THEN conjunct2, THEN conjunct2, THEN conjunct2, THEN conjunct2, THEN conjunct2,
      THEN conjunct2, THEN conjunct2, THEN conjunct2, THEN conjunct2, THEN conjunct2,
      THEN conjunct1] ns2 have b4: "calls (handleStart [file_a, file_b] Performance parse_fails_env init_state) =
         calls init_state @ map Process [0..<length [file_a, file_b]]"
    and b5: "calls (handleStart [file_a, file_b] Batch parse_fails_env init_state) =
         calls init_state @ map Extract [0..<length [file_a, file_b]] @ [Unload] @
         map parse_of (concat (map (extracted parse_fails_env) [0..<length [file_a, file_b]]))"
    and b6: "calls (handleStart [file_a, file_b] LowVram parse_fails_env init_state) =
         calls init_state @ concat (map (lowvram_job_calls parse_fails_env) [0..<length [file_a, file_b]])"
    by blast+
  from t2 [THEN conjunct2, THEN conjunct2, THEN conjunct2, THEN conjunct2, THEN conjunct2,
      THEN conjunct2, THEN conjunct2, THEN conjunct1] kv2 have b7: "failure_message parse_fails_env (JsonBody (JObj [])) ''Parse failed'' = ''Parse failed''"
    by blast
  from t2 [THEN conjunct2, THEN conjunct2, THEN conjunct2, THEN conjunct2, THEN conjunct2,
      THEN conjunct2, THEN conjunct2, THEN conjunct2, THEN conjunct2, THEN conjunct2,
      THEN conjunct2, THEN conjunct2, THEN conjunct2, THEN conjunct2, THEN conjunct1] j1 xm1 nu1 pq' nl2
  have g2l: "job_is 1 (failed_with (failure_message parse_fails_env (JsonBody (JObj [(''detail'', JStr ''template not found'')])) ''Parse failed'')
                   ((initialResults [file_a, file_b] (next_url init_state) ! 1)\<lparr>rawMarkdown := Some (JStr ''# Title'')\<rparr>))
         (handleStart [file_a, file_b] LowVram parse_fails_env init_state)"
    by blast
  from t2 [THEN conjunct2, THEN conjunct2, THEN conjunct2, THEN conjunct2, THEN conjunct2,
      THEN conjunct2, THEN conjunct2, THEN conjunct2, THEN conjunct2, THEN conjunct2,
      THEN conjunct2, THEN conjunct2, THEN conjunct2, THEN conjunct2, THEN conjunct2] j1 xm1 pq' ne2 nb2 np2
  have g2b: "job_is 1 (failed_with (failure_message parse_fails_env (JsonBody (JObj [(''detail'', JStr ''template not found'')])) ''Parse failed'')
                   ((initialResults [file_a, file_b] (next_url init_state) ! 1)\<lparr>rawMarkdown := Some (JStr ''# Title'')\<rparr>))
         (handleStart [file_a, file_b] Batch parse_fails_env init_state)"
    by blast
  have kv4: "map_of (rev [(''detail'', JNull)]) ''detail'' = Some JNull" by simp
  have fv: "\<not> js_truthy JNull" by simp
  from t2 [THEN conjunct2, THEN conjunct2, THEN conjunct2, THEN conjunct2, THEN conjunct2,
      THEN conjunct2, THEN conjunct2, THEN conjunct2, THEN conjunct2, THEN conjunct1] kv4 fv
  have b8: "failure_message parse_fails_env (JsonBody (JObj [(''detail'', JNull)])) ''Parse failed'' = ''Parse failed''"
    by blast
  have h1: "fst (lowvram_iteration parse_fails_env 0 two_pending) = Continue"
    unfolding b1 by simp
  have h2: "results (snd (lowvram_iteration parse_fails_env 0 two_pending)) =
       [\<lparr>filename = ''a.pdf'', status = Error, rawMarkdown = (Some (JStr ''# Title'')), parsedJson = None,
        error = Some ''template not found'', processingTime = None, fileUrl = Some (Blob 0)\<rparr>,
        \<lparr>filename = ''b.png'', status = Pending, rawMarkdown = None, parsedJson = None,
        error = None, processingTime = None, fileUrl = Some (Blob 1)\<rparr>]"
    unfolding b1 snd_conv by code_simp
  have h3: "calls (snd (lowvram_iteration parse_fails_env 0 two_pending)) =
       [Extract 0, Unload, Parse 0 (Some (JStr ''# Title''))]"
    unfolding b1 snd_conv by code_simp
  have h4: "map status (results (snd (parse_call parse_fails_env 0 (Some (JStr ''# Title'')) two_pending))) =
       [Error, Pending]"
    unfolding b3 snd_conv by code_simp
  have h5: "map error (results (snd (parse_call parse_fails_env 0 (Some (JStr ''# Title'')) two_pending))) =
       [Some ''template not found'', None]"
    unfolding b3 snd_conv by code_simp
  have h6: "map status (results (for_loop (lowvram_iteration parse_fails_env) aborted [0, 1] two_pending)) =
       [Error, Error]"
    unfolding b2 by code_simp
  have h7: "map error (results (for_loop (lowvram_iteration parse_fails_env) aborted [0, 1] two_pending)) =
       [Some ''template not found'', Some ''template not found'']"
    unfolding b2 by code_simp
  have h8: "calls (handleStart [file_a, file_b] LowVram parse_fails_env init_state) =
       [Extract 0, Unload, Parse 0 (Some (JStr ''# Title'')), Extract 1, Unload, Parse 1 (Some (JStr ''# Title''))]"
    unfolding b6 u c0 by code_simp
  have h9: "calls (handleStart [file_a, file_b] Batch parse_fails_env init_state) =
       [Extract 0, Extract 1, Unload, Parse 0 (Some (JStr ''# Title'')), Parse 1 (Some (JStr ''# Title''))]"
    unfolding b5 u c0 by code_simp
  have m2l: "render_error (handleStart [file_a, file_b] LowVram parse_fails_env init_state) = None"
    by code_simp
  have r2l: "results (handleStart [file_a, file_b] LowVram parse_fails_env init_state) ! 1 =
       \<lparr>filename = ''b.png'', status = Error, rawMarkdown = (Some (JStr ''# Title'')), parsedJson = None,
        error = Some ''template not found'', processingTime = None, fileUrl = Some (Blob 1)\<rparr>"
    using g2l m2l tq by (simp add: job_is_def)
  have m2b: "render_error (handleStart [file_a, file_b] Batch parse_fails_env init_state) = None"
    by code_simp
  have r2b: "results (handleStart [file_a, file_b] Batch parse_fails_env init_state) ! 1 =
       \<lparr>filename = ''b.png'', status = Error, rawMarkdown = (Some (JStr ''# Title'')), parsedJson = None,
        error = Some ''template not found'', processingTime = None, fileUrl = Some (Blob 1)\<rparr>"
    using g2b m2b tq by (simp add: job_is_def)
  have d2: "failure_message parse_fails_env (JsonBody (JObj [])) ''Parse failed'' = ''Parse failed''"
    using b7 by simp
  have d4: "failure_message parse_fails_env (JsonBody (JObj [(''detail'', JNull)])) ''Parse failed'' = ''Parse failed''"
    using b8 by simp
  show ?thesis
    by (intro conjI l m n ns p0 e0 q0 f1 f2 f3 f4 f5 f6 f7 mp rp mb rb ml rl d1 d3 xm0 nu0 pq0 ns2 h1 h2 h3 h4 h5 h6 h7 h8 h9 m2l r2l m2b r2b d2 d4)
qed

text \<open>
  Claim C2, as amended. An OK response whose body is a JSON object without the
  expected field is not a failure under any policy: reading the missing field gives
  \<^verbatim>\<open>undefined\<close> and no exception. Under Performance the job becomes Success with
  the fields stored as read; in Phase 1 of Batch it goes back to Pending and is handed
  to Phase 3 with the markdown as read; under Low-VRAM the iteration goes on to unload
  and parse with it; a parse answer without \<^verbatim>\<open>parsed_data\<close> makes the job Success.
  In each case the loop goes on with the remaining jobs.
\<close>

theorem ok_without_field_is_not_error:
  assumes "live s" and "render_error s = None" and "i < length (results s)"
  shows
   "(\<forall>key. key \<notin> fst ` set kvs \<longrightarrow> get_prop (JObj kvs) key = Inr None) \<and>
    (process_out env i = Outcome False (Response True (JsonBody (JObj kvs))) \<longrightarrow>
       for_loop (normal_iteration env) aborted (i # rest) s =
       for_loop (normal_iteration env) aborted rest
         (resolved [Process i] i
            (processed_with (map_of (rev kvs) ''raw_output'') (map_of (rev kvs) ''parsed_data'')
               (elapsed env i)) s)) \<and>
    (extract_out env i = Outcome False (Response True (JsonBody (JObj kvs))) \<longrightarrow>
       for_loop (batch_extract_iteration env) (\<lambda>ms. aborted (snd ms)) (i # rest) (mr, s) =
       for_loop (batch_extract_iteration env) (\<lambda>ms. aborted (snd ms)) rest
         (mr @ [(i, map_of (rev kvs) ''markdown'')],
          resolved [Extract i] i (extracted_with (map_of (rev kvs) ''markdown'')) s) \<and>
       lowvram_iteration env i s =
         parse_call env i (map_of (rev kvs) ''markdown'')
           (fetch_without_signal Unload (unload_out env i)
              (extract_stored i (map_of (rev kvs) ''markdown'') s))) \<and>
    (parse_out env i = Outcome False (Response True (JsonBody (JObj kvs))) \<longrightarrow>
       for_loop (batch_parse_iteration env) aborted ((i, md) # rest') s =
       for_loop (batch_parse_iteration env) aborted rest'
         (resolved [Parse i md] i (parsed_with (map_of (rev kvs) ''parsed_data'') (elapsed env i)) s) \<and>
       parse_call env i md s =
         (Continue,
          resolved [Parse i md] i (parsed_with (map_of (rev kvs) ''parsed_data'') (elapsed env i)) s))"
proof -
  have na: "\<not> aborted s" using assms(1) by (rule live_not_aborted)
  have c0: "\<forall>key. key \<notin> fst ` set kvs \<longrightarrow> get_prop (JObj kvs) key = Inr None"
    by (intro allI impI get_prop_missing)
  have c1: "process_out env i = Outcome False (Response True (JsonBody (JObj kvs))) \<longrightarrow>
       for_loop (normal_iteration env) aborted (i # rest) s =
       for_loop (normal_iteration env) aborted rest
         (resolved [Process i] i
            (processed_with (map_of (rev kvs) ''raw_output'') (map_of (rev kvs) ''parsed_data'')
               (elapsed env i)) s)"
    using na normal_iteration_object [OF assms] by simp
  have c2: "extract_out env i = Outcome False (Response True (JsonBody (JObj kvs))) \<longrightarrow>
       for_loop (batch_extract_iteration env) (\<lambda>ms. aborted (snd ms)) (i # rest) (mr, s) =
       for_loop (batch_extract_iteration env) (\<lambda>ms. aborted (snd ms)) rest
         (mr @ [(i, map_of (rev kvs) ''markdown'')],
          resolved [Extract i] i (extracted_with (map_of (rev kvs) ''markdown'')) s) \<and>
       lowvram_iteration env i s =
         parse_call env i (map_of (rev kvs) ''markdown'')
           (fetch_without_signal Unload (unload_out env i)
              (extract_stored i (map_of (rev kvs) ''markdown'') s))"
    using na batch_extract_iteration_object [OF assms] lowvram_iteration_object [OF assms(1)]
    by simp
  have c3: "parse_out env i = Outcome False (Response True (JsonBody (JObj kvs))) \<longrightarrow>
       for_loop (batch_parse_iteration env) aborted ((i, md) # rest') s =
       for_loop (batch_parse_iteration env) aborted rest'
         (resolved [Parse i md] i (parsed_with (map_of (rev kvs) ''parsed_data'') (elapsed env i)) s) \<and>
       parse_call env i md s =
         (Continue,
          resolved [Parse i md] i (parsed_with (map_of (rev kvs) ''parsed_data'') (elapsed env i)) s)"
    using na batch_parse_iteration_object [OF assms] parse_call_object [OF assms(1,2)] by simp
  from c0 c1 c2 c3 show ?thesis by blast
qed

theorem ok_without_field_is_not_error_witness:
  "live two_pending \<and> render_error two_pending = None \<and> length (results two_pending) = 2 \<and>
   process_out empty_body_env 0 = ok_json (JObj []) \<and>
   extract_out empty_body_env 0 = ok_json (JObj []) \<and>
   parse_out empty_body_env 0 = ok_json (JObj []) \<and>
   get_prop (JObj []) ''raw_output'' = Inr None \<and>
   map status (results (for_loop (normal_iteration empty_body_env) aborted [0, 1] two_pending)) =
     [Success, Success] \<and>
   map error (results (for_loop (normal_iteration empty_body_env) aborted [0, 1] two_pending)) =
     [None, None] \<and>
   map rawMarkdown (results (for_loop (normal_iteration empty_body_env) aborted [0, 1] two_pending)) =
     [None, None] \<and>
   for_loop (batch_extract_iteration empty_body_env) (\<lambda>ms. aborted (snd ms)) [0] ([], two_pending) =
     ([(0, None)], resolved [Extract 0] 0 (extracted_with None) two_pending) \<and>
   map status (results (snd (lowvram_iteration empty_body_env 0 two_pending))) = [Success, Pending] \<and>
   map status (results (for_loop (batch_parse_iteration empty_body_env) aborted [(0, None)] two_pending)) =
     [Success, Pending]"
proof -
  have l: "live two_pending" by code_simp
  have m: "render_error two_pending = None" by code_simp
  have n: "length (results two_pending) = 2" by code_simp
  have i0: "0 < length (results two_pending)" using n by simp
  have p: "process_out empty_body_env 0 = Outcome False (Response True (JsonBody (JObj [])))"
    by (simp add: empty_body_env_def ok_json_def)
  have e: "extract_out empty_body_env 0 = Outcome False (Response True (JsonBody (JObj [])))"
    by (simp add: empty_body_env_def ok_json_def)
  have q: "parse_out empty_body_env 0 = Outcome False (Response True (JsonBody (JObj [])))"
    by (simp add: empty_body_env_def ok_json_def)
  note t = ok_without_field_is_not_error [OF l m i0, where env = empty_body_env and kvs = "[]"
      and rest = "[1]" and mr = "[]" and md = None and rest' = "[]"]
  note t' = ok_without_field_is_not_error [OF l m i0, where env = empty_body_env and kvs = "[]"
      and rest = "[]" and mr = "[]" and md = None and rest' = "[]"]
  from t have g: "get_prop (JObj []) ''raw_output'' = Inr None" by simp
  from t p have a1: "for_loop (normal_iteration empty_body_env) aborted [0, 1] two_pending =
      for_loop (normal_iteration empty_body_env) aborted [1]
        (resolved [Process 0] 0 (processed_with (map_of (rev []) ''raw_output'')
           (map_of (rev []) ''parsed_data'') (elapsed empty_body_env 0)) two_pending)"
    by blast
  from t' e have a2: "for_loop (batch_extract_iteration empty_body_env) (\<lambda>ms. aborted (snd ms)) [0] ([], two_pending) =
      for_loop (batch_extract_iteration empty_body_env) (\<lambda>ms. aborted (snd ms)) []
         ([] @ [(0, map_of (rev []) ''markdown'')],
          resolved [Extract 0] 0 (extracted_with (map_of (rev []) ''markdown'')) two_pending)"
    and a3: "lowvram_iteration empty_body_env 0 two_pending =
         parse_call empty_body_env 0 (map_of (rev []) ''markdown'')
           (fetch_without_signal Unload (unload_out empty_body_env 0)
              (extract_stored 0 (map_of (rev []) ''markdown'') two_pending))"
    by blast+
  from t' q have a4: "for_loop (batch_parse_iteration empty_body_env) aborted [(0, None)] two_pending =
       for_loop (batch_parse_iteration empty_body_env) aborted []
         (resolved [Parse 0 None] 0 (parsed_with (map_of (rev []) ''parsed_data'')
            (elapsed empty_body_env 0)) two_pending)"
    by blast
  have v1: "map status (results (for_loop (normal_iteration empty_body_env) aborted [1]
        (resolved [Process 0] 0 (processed_with (map_of (rev []) ''raw_output'')
           (map_of (rev []) ''parsed_data'') (elapsed empty_body_env 0)) two_pending))) = [Success, Success]"
    by code_simp
  have v2: "map error (results (for_loop (normal_iteration empty_body_env) aborted [1]
        (resolved [Process 0] 0 (processed_with (map_of (rev []) ''raw_output'')
           (map_of (rev []) ''parsed_data'') (elapsed empty_body_env 0)) two_pending))) = [None, None]"
    by code_simp
  have v3: "map rawMarkdown (results (for_loop (normal_iteration empty_body_env) aborted [1]
        (resolved [Process 0] 0 (processed_with (map_of (rev []) ''raw_output'')
           (map_of (rev []) ''parsed_data'') (elapsed empty_body_env 0)) two_pending))) = [None, None]"
    by code_simp
  have v4: "map status (results (snd (parse_call empty_body_env 0 (map_of (rev []) ''markdown'')
           (fetch_without_signal Unload (unload_out empty_body_env 0)
              (extract_stored 0 (map_of (rev []) ''markdown'') two_pending))))) = [Success, Pending]"
    by code_simp
  have v5: "map status (results (resolved [Parse 0 None] 0 (parsed_with (map_of (rev []) ''parsed_data'')
            (elapsed empty_body_env 0)) two_pending)) = [Success, Pending]"
    by code_simp
  show ?thesis
    unfolding a1 a2 a3 a4
    using l m n p e q g v1 v2 v3 v4 v5 by (simp add: ok_json_def)
qed

text \<open>
  Claim C2 as stated fails: under Performance, an OK response with body \<^verbatim>\<open>{}\<close> leaves
  the job Success with no error message.
\<close>

theorem ok_without_field_counterexample:
  "process_out empty_body_env 0 = Outcome False (Response True (JsonBody (JObj []))) \<and>
   status (results (handleStart [file_a] Performance empty_body_env init_state) ! 0) = Success \<and>
   error (results (handleStart [file_a] Performance empty_body_env init_state) ! 0) = None"
  by code_simp

end
